theory Spec2Isabelle
  imports Complex_Main "HOL-Library.Log_Nat"
begin

section \<open>Data model of the universal SDK (\<open>SintesisPasarelaCore\<close>)\<close>

text \<open>
  The runtime the script detects when it is loaded, and the render modes of
  \<open>config.mode\<close> / \<open>options.mode\<close>. Any mode string other than \<open>iframe\<close>,
  \<open>webview\<close> and \<open>api-only\<close> reaches the \<open>default\<close> branch of the \<open>switch\<close> in
  \<open>render\<close>, which is the \<open>auto\<close> branch.
\<close>

datatype environment = Web | ReactNative | Worker | Node | Deno | Unknown

datatype mode = Auto | Iframe | Webview | ApiOnly

text \<open>
  The \<open>Error\<close> values the code throws. The message text of the source is a function of
  the constructor and its argument:
  \<^item> \<open>NetworkError c\<close>: thrown by \<open>UniversalHttpClient.request\<close>, "Error de red (env): c";
  \<^item> \<open>AuthError d\<close>: thrown by \<open>_authenticate\<close>, "Error de autenticacion: d";
  \<^item> \<open>LinkError d\<close>: thrown by \<open>_generateEmbedLink\<close>, "Error generando enlace: d";
  \<^item> \<open>TokenUnavailable\<close>: "Token de acceso no disponible";
  \<^item> \<open>TypeError\<close>: reading a property of an absent \<open>response.data\<close>;
  \<^item> \<open>NotInitialized\<close>: "SDK no inicializado";
  \<^item> \<open>ApiKeyRequired\<close>: "SintesisPasarela: API Key es requerida";
  \<^item> the remaining ones are thrown by \<open>_renderIframe\<close>.
  In \<open>AuthError\<close> and \<open>LinkError\<close> the detail is \<open>response.message || "Respuesta invalida"\<close>;
  the first version of the SDK prints \<open>response.message\<close> as it is, \<open>Unreported\<close> when
  there is none.
\<close>

datatype detail = Reported string | InvalidResponse | Unreported

datatype error =
    NetworkError string
  | AuthError detail
  | LinkError detail
  | TokenUnavailable
  | TypeError
  | NotInitialized
  | ApiKeyRequired
  | IframeOnlyWeb
  | ContainerNotFound
  | ContainerInvalid
  | IframeLoadTimeout
  | IframeLoadError

text \<open>
  The numbers of the refresh timer. A JavaScript number is an IEEE 754 double: a finite
  one is given by its exact value, and \<open>NaN\<close> does not arise here. \<open>to_double\<close> rounds an
  exact value to the nearest double, ties to the even significand of 53 bits, with the
  subnormal spacing below \<open>2 powi (- 1022)\<close> and overflow to infinity from \<open>2 powi 1024\<close>
  on. It is what \<open>JSON.parse\<close> does to a number of the reply and what \<open>-\<close> and \<open>*\<close> do to
  the exact difference and product.
\<close>

datatype number = Finite rat | PlusInfinity | MinusInfinity

definition round_even :: "rat \<Rightarrow> int" where
  "round_even x =
     (let f = \<lfloor>x\<rfloor>; d = x - of_int f
      in if d < 1 / 2 then f else if 1 / 2 < d then f + 1 else if even f then f else f + 1)"

text \<open>The exponent of the binade of \<open>x \<noteq> 0\<close>: \<open>2 powi binade x \<le> \<bar>x\<bar> < 2 powi (binade x + 1)\<close>.\<close>

definition binade :: "rat \<Rightarrow> int" where
  "binade x =
     (case quotient_of \<bar>x\<bar> of
        (p, q) \<Rightarrow> (let k = bitlen p - bitlen q in if 2 powi k \<le> \<bar>x\<bar> then k else k - 1))"

definition to_double :: "rat \<Rightarrow> number" where
  "to_double x =
     (if x = 0 then Finite 0
      else
        let q = 2 powi (max (binade x) (- 1022) - 52);
            y = of_int (round_even (x / q)) * q
        in if 2 powi 1024 \<le> \<bar>y\<bar> then (if 0 < x then PlusInfinity else MinusInfinity)
           else Finite y)"

text \<open>\<open>a - c\<close> and \<open>a * c\<close> for a constant \<open>c > 0\<close> that is a double.\<close>

fun js_minus :: "number \<Rightarrow> rat \<Rightarrow> number" where
  "js_minus (Finite x) c = to_double (x - c)"
| "js_minus PlusInfinity c = PlusInfinity"
| "js_minus MinusInfinity c = MinusInfinity"

fun js_times :: "number \<Rightarrow> rat \<Rightarrow> number" where
  "js_times (Finite x) c = to_double (x * c)"
| "js_times PlusInfinity c = PlusInfinity"
| "js_times MinusInfinity c = MinusInfinity"


text \<open>
  What \<open>httpClient.request\<close> gives back: it throws (non-2xx status, connection
  failure, timeout, invalid JSON), or it returns the parsed JSON object
  \<open>{success, data, message}\<close>. \<open>success\<close> is read for its truthiness only, and
  \<open>expiresIn\<close>, when it is there, is the number written in the reply.
\<close>

datatype 'd reply = Failure string | Json bool "'d option" "string option"

record auth_data =
  data_accessToken :: "string option"
  data_expiresIn :: "rat option"

record link_data =
  data_embedUrl :: "string option"

text \<open>The backend: the reply to the n-th request of each endpoint.\<close>

record backend =
  auth_reply :: "nat \<Rightarrow> auth_data reply"
  link_reply :: "nat \<Rightarrow> link_data reply"

text \<open>
  The part of \<open>this.config\<close> and of the host the lifecycle depends on: which observers
  are functions, the default mode, the detected environment, and whether the host has
  \<open>setTimeout\<close>/\<open>clearTimeout\<close>.
\<close>

record config =
  apiKey :: string
  cfg_environment :: environment
  cfg_mode :: mode
  cfg_autoInit :: "bool option"
  has_onSuccess :: bool
  has_onError :: bool
  has_onLoad :: bool
  has_onTokenExpired :: bool
  hasTimers :: bool

text \<open>The object \<open>getStatus()\<close> returns (without \<open>version\<close> and \<open>timestamp\<close>).\<close>

record status =
  st_isInitialized :: bool
  st_isLoading :: bool
  st_hasAccessToken :: bool
  st_hasEmbedUrl :: bool
  st_environment :: environment
  st_mode :: mode
  st_retryCount :: nat

datatype err_context = InitFailed | AutoInitFailed | TokenRefreshFailed | IframeRenderFailed

text \<open>
  What \<open>render\<close> returns, by the \<open>type\<close> field of the object: the iframe with its
  \<open>src\<close> and the \<open>url\<close> field, the webview descriptor with its \<open>url\<close>, the API data
  with \<open>accessToken\<close> and \<open>embedUrl\<close>.
\<close>

datatype render_result =
    IframeResult "string option" "string option"
  | WebviewResult "string option" environment
  | ApiResult "string option" "string option" environment

text \<open>
  The observable effects, in the order they happen: the two requests, the calls of
  \<open>setTimeout\<close> for the refresh (with the delay) and of \<open>clearTimeout\<close>, the back-off
  wait, and each call of a registered observer with its payload.
\<close>

datatype event =
    HttpAuth
  | HttpLink "string option"
  | TimerSet number
  | TimerCleared
  | Waited nat
  | OnSuccess "string option" "string option"
  | OnError err_context error status
  | OnLoad render_result
  | OnLoadIframe "string option"
  | OnTokenExpired "string option"

text \<open>
  The mutable fields of the instance. \<open>_refreshTimeout\<close> is the handle of the last refresh
  timer set, given by the delay (in ms) it was set with; the field keeps the handle after
  the timer has fired. \<open>timerPending\<close>, \<open>trace\<close>, \<open>nAuth\<close> and \<open>nLink\<close> are
  instrumentation: whether the host still has that timer pending, the effects so far and
  the number of requests sent to each endpoint.
\<close>

record manager =
  accessToken :: "string option"
  embedUrl :: "string option"
  isInitialized :: bool
  isLoading :: bool
  retryCount :: nat
  refreshTimeout :: "number option"
  timerPending :: bool
  trace :: "event list"
  nAuth :: nat
  nLink :: nat

text \<open>What the promise of an \<open>async\<close> method settles to.\<close>

record init_result =
  r_accessToken :: "string option"
  r_embedUrl :: "string option"
  r_environment :: environment

datatype 'a outcome = Resolved 'a | Rejected error

definition maxRetries :: nat where
  "maxRetries = 3"

section \<open>The synchronous pieces of the methods\<close>

text \<open>JavaScript truthiness of an optional string: absent and empty are falsy.\<close>

fun truthy :: "string option \<Rightarrow> bool" where
  "truthy None = False"
| "truthy (Some s) = (s \<noteq> [])"

text \<open>\<open>response.message || "Respuesta invalida"\<close>\<close>

fun detail_of :: "string option \<Rightarrow> detail" where
  "detail_of None = InvalidResponse"
| "detail_of (Some s) = (if s = [] then InvalidResponse else Reported s)"

text \<open>
  \<open>response.data.expiresIn || 1800\<close>: the hint as \<open>JSON.parse\<close> read it, and 1800 when
  it is absent or zero.
\<close>

fun effective_expiry :: "rat option \<Rightarrow> number" where
  "effective_expiry None = Finite 1800"
| "effective_expiry (Some h) = (if to_double h = Finite 0 then Finite 1800 else to_double h)"

definition emit :: "event \<Rightarrow> manager \<Rightarrow> manager" where
  "emit e m = m\<lparr>trace := trace m @ [e]\<rparr>"

definition getStatus :: "config \<Rightarrow> manager \<Rightarrow> status" where
  "getStatus cfg m =
     \<lparr>st_isInitialized = isInitialized m,
      st_isLoading = isLoading m,
      st_hasAccessToken = truthy (accessToken m),
      st_hasEmbedUrl = truthy (embedUrl m),
      st_environment = cfg_environment cfg,
      st_mode = cfg_mode cfg,
      st_retryCount = retryCount m\<rparr>"

text \<open>
  \<open>_triggerCallback\<close> calls the observer when it is a function; what the observer
  throws is caught and logged. An observer is a notification: it does not call back
  into the manager.
\<close>

fun registered :: "config \<Rightarrow> event \<Rightarrow> bool" where
  "registered cfg (OnSuccess _ _) = has_onSuccess cfg"
| "registered cfg (OnError _ _ _) = has_onError cfg"
| "registered cfg (OnLoad _) = has_onLoad cfg"
| "registered cfg (OnLoadIframe _) = has_onLoad cfg"
| "registered cfg (OnTokenExpired _) = has_onTokenExpired cfg"
| "registered cfg _ = False"

definition triggerCallback :: "config \<Rightarrow> event \<Rightarrow> manager \<Rightarrow> manager" where
  "triggerCallback cfg e m = (if registered cfg e then emit e m else m)"

definition handleError :: "config \<Rightarrow> err_context \<Rightarrow> error \<Rightarrow> manager \<Rightarrow> manager" where
  "handleError cfg ctx e m = triggerCallback cfg (OnError ctx e (getStatus cfg m)) m"

text \<open>\<open>const refreshTime = (expiresIn - 60) * 1000\<close>\<close>

definition refreshTime :: "number \<Rightarrow> number" where
  "refreshTime expiresIn = js_times (js_minus expiresIn 60) 1000"

text \<open>
  \<open>_scheduleTokenRefresh\<close>: nothing without \<open>setTimeout\<close>; otherwise \<open>clearTimeout\<close> is
  called on the handle the field holds, if it holds one, and a new timer is set with delay
  \<open>refreshTime\<close>.
\<close>

definition scheduleTokenRefresh :: "config \<Rightarrow> number \<Rightarrow> manager \<Rightarrow> manager" where
  "scheduleTokenRefresh cfg expiresIn m =
     (if \<not> hasTimers cfg then m
      else
        let m1 = (if refreshTimeout m \<noteq> None then emit TimerCleared m else m)
        in emit (TimerSet (refreshTime expiresIn))
             (m1\<lparr>refreshTimeout := Some (refreshTime expiresIn), timerPending := True\<rparr>))"

text \<open>\<open>_delay(ms)\<close> waits with \<open>setTimeout\<close>, and resolves at once without it.\<close>

definition delay :: "config \<Rightarrow> nat \<Rightarrow> manager \<Rightarrow> manager" where
  "delay cfg ms m = (if hasTimers cfg then emit (Waited ms) m else m)"

text \<open>The part of \<open>_authenticate\<close> before the \<open>await\<close>: the request is sent.\<close>

definition send_auth :: "manager \<Rightarrow> manager" where
  "send_auth m = emit HttpAuth (m\<lparr>nAuth := nAuth m + 1\<rparr>)"

text \<open>
  The test \<open>response.success && response.data.accessToken\<close> of \<open>_authenticate\<close>
  with what each branch uses: the error thrown, or the token and
  \<open>response.data.expiresIn || 1800\<close>.
\<close>

fun auth_check :: "auth_data reply \<Rightarrow> error + (string option \<times> number)" where
  "auth_check (Failure cause) = Inl (NetworkError cause)"
| "auth_check (Json success data message) =
     (if \<not> success then Inl (AuthError (detail_of message))
      else case data of
        None \<Rightarrow> Inl TypeError
      | Some d \<Rightarrow>
          if truthy (data_accessToken d)
          then Inr (data_accessToken d, effective_expiry (data_expiresIn d))
          else Inl (AuthError (detail_of message)))"

text \<open>
  The part of \<open>_authenticate\<close> after the \<open>await\<close>: the token is stored and the refresh
  is scheduled, or the method throws.
\<close>

definition auth_received :: "config \<Rightarrow> auth_data reply \<Rightarrow> manager \<Rightarrow> error option \<times> manager" where
  "auth_received cfg r m =
     (case auth_check r of
        Inl e \<Rightarrow> (Some e, m)
      | Inr (tok, expiresIn) \<Rightarrow>
          (None, scheduleTokenRefresh cfg expiresIn (m\<lparr>accessToken := tok\<rparr>)))"

text \<open>
  The part of \<open>_generateEmbedLink\<close> before the \<open>await\<close>: it throws without a token,
  and sends the request with the token as bearer otherwise.
\<close>

definition send_link :: "manager \<Rightarrow> error option \<times> manager" where
  "send_link m =
     (if \<not> truthy (accessToken m) then (Some TokenUnavailable, m)
      else (None, emit (HttpLink (accessToken m)) (m\<lparr>nLink := nLink m + 1\<rparr>)))"

text \<open>The test \<open>response.success && response.data.embedUrl\<close> of \<open>_generateEmbedLink\<close>.\<close>

fun link_check :: "link_data reply \<Rightarrow> error + string option" where
  "link_check (Failure cause) = Inl (NetworkError cause)"
| "link_check (Json success data message) =
     (if \<not> success then Inl (LinkError (detail_of message))
      else case data of
        None \<Rightarrow> Inl TypeError
      | Some d \<Rightarrow>
          if truthy (data_embedUrl d) then Inr (data_embedUrl d)
          else Inl (LinkError (detail_of message)))"

text \<open>The part of \<open>_generateEmbedLink\<close> after the \<open>await\<close>.\<close>

definition link_received :: "link_data reply \<Rightarrow> manager \<Rightarrow> error option \<times> manager" where
  "link_received r m =
     (case link_check r of
        Inl e \<Rightarrow> (Some e, m)
      | Inr url \<Rightarrow> (None, m\<lparr>embedUrl := url\<rparr>))"

text \<open>The end of the \<open>try\<close> block of \<open>init\<close>, after both steps.\<close>

definition init_success :: "config \<Rightarrow> manager \<Rightarrow> init_result \<times> manager" where
  "init_success cfg m =
     (let m1 = m\<lparr>isInitialized := True, isLoading := False, retryCount := 0\<rparr>;
          m2 = triggerCallback cfg (OnSuccess (accessToken m1) (embedUrl m1)) m1
      in (\<lparr>r_accessToken = accessToken m2, r_embedUrl = embedUrl m2,
            r_environment = cfg_environment cfg\<rparr>, m2))"

text \<open>
  The \<open>catch\<close> block of \<open>init\<close> up to its \<open>await\<close> or \<open>throw\<close>: \<open>Inl ms\<close> is a retry
  after \<open>_delay(ms)\<close>, \<open>Inr e\<close> is the error thrown after \<open>_handleError\<close>.
\<close>

definition init_catch :: "config \<Rightarrow> error \<Rightarrow> manager \<Rightarrow> (nat + error) \<times> manager" where
  "init_catch cfg e m =
     (let m1 = m\<lparr>isLoading := False\<rparr> in
      if retryCount m1 < maxRetries
      then (let m2 = m1\<lparr>retryCount := retryCount m1 + 1\<rparr>
            in (Inl (1000 * retryCount m2), m2))
      else (Inr e, handleError cfg InitFailed e m1))"

text \<open>The assignments at the head of \<open>refresh\<close>, before it calls \<open>init\<close>.\<close>

definition refresh_clear :: "manager \<Rightarrow> manager" where
  "refresh_clear m =
     m\<lparr>isInitialized := False, accessToken := None, embedUrl := None, retryCount := 0\<rparr>"

text \<open>
  \<open>destroy\<close>: when the field holds a handle, \<open>clearTimeout\<close> is called on it and the
  field is set to \<open>null\<close>.
\<close>

definition destroy :: "config \<Rightarrow> manager \<Rightarrow> manager" where
  "destroy cfg m =
     (let m1 = m\<lparr>isInitialized := False, accessToken := None, embedUrl := None,
                 isLoading := False\<rparr>
      in if refreshTimeout m1 \<noteq> None \<and> hasTimers cfg
         then emit TimerCleared (m1\<lparr>refreshTimeout := None, timerPending := False\<rparr>)
         else m1)"

definition getEmbedUrl :: "manager \<Rightarrow> error + string option" where
  "getEmbedUrl m = (if \<not> isInitialized m then Inl NotInitialized else Inr (embedUrl m))"

definition getAccessToken :: "manager \<Rightarrow> error + string option" where
  "getAccessToken m = (if \<not> isInitialized m then Inl NotInitialized else Inr (accessToken m))"

text \<open>The fields the constructor assigns.\<close>

definition fresh :: manager where
  "fresh = \<lparr>accessToken = None, embedUrl = None, isInitialized = False, isLoading = False,
            retryCount = 0, refreshTimeout = None, timerPending = False, trace = [],
            nAuth = 0, nLink = 0\<rparr>"

section \<open>The methods when nothing else runs in between\<close>

text \<open>
  The \<open>async\<close> methods, each \<open>await\<close> completing before anything else touches the
  instance: no other call is made and the refresh timer does not fire before the method
  ends. The n-th request of an endpoint gets the backend's n-th reply.
\<close>

definition authenticate :: "config \<Rightarrow> backend \<Rightarrow> manager \<Rightarrow> error option \<times> manager" where
  "authenticate cfg b m = auth_received cfg (auth_reply b (nAuth m)) (send_auth m)"

definition generateEmbedLink :: "backend \<Rightarrow> manager \<Rightarrow> error option \<times> manager" where
  "generateEmbedLink b m =
     (case send_link m of
        (Some e, m1) \<Rightarrow> (Some e, m1)
      | (None, m1) \<Rightarrow> link_received (link_reply b (nLink m)) m1)"

text \<open>The \<open>try\<close> block of \<open>init\<close>, entered after \<open>this.isLoading = true\<close>.\<close>

definition try_block :: "config \<Rightarrow> backend \<Rightarrow> manager \<Rightarrow> (error + init_result) \<times> manager" where
  "try_block cfg b m =
     (case authenticate cfg b m of
        (Some e, m1) \<Rightarrow> (Inl e, m1)
      | (None, m1) \<Rightarrow>
          (case generateEmbedLink b m1 of
             (Some e, m2) \<Rightarrow> (Inl e, m2)
           | (None, m2) \<Rightarrow> (case init_success cfg m2 of (r, m3) \<Rightarrow> (Inr r, m3))))"

function init :: "config \<Rightarrow> backend \<Rightarrow> manager \<Rightarrow> init_result option outcome \<times> manager" where
  "init cfg b m =
     (if isLoading m then (Resolved None, m)
      else if isInitialized m \<and> truthy (accessToken m) then (Resolved None, m)
      else
        case try_block cfg b (m\<lparr>isLoading := True\<rparr>) of
          (Inr r, m1) \<Rightarrow> (Resolved (Some r), m1)
        | (Inl e, m1) \<Rightarrow>
            (case init_catch cfg e m1 of
               (Inl ms, m2) \<Rightarrow> init cfg b (delay cfg ms m2)
             | (Inr e', m2) \<Rightarrow> (Rejected e', m2)))"
  by pat_completeness auto
termination
proof (relation "measure (\<lambda>(cfg, b, m). maxRetries - retryCount m)", goal_cases)
  case 1
  show ?case by simp
next
  case (2 cfg b m x m1 e y m2 ms)
  from 2 have "try_block cfg b (m\<lparr>isLoading := True\<rparr>) = (Inl e, m1)"
    by simp
  then have r1: "retryCount m1 = retryCount m"
    by (auto simp: try_block_def authenticate_def generateEmbedLink_def auth_received_def
        link_received_def send_auth_def send_link_def scheduleTokenRefresh_def emit_def
        init_success_def Let_def
        split: prod.splits option.splits sum.splits if_splits)
  from 2 have "init_catch cfg e m1 = (Inl ms, m2)"
    by simp
  then have "retryCount m1 < maxRetries" and "retryCount m2 = retryCount m1 + 1"
    by (auto simp: init_catch_def Let_def split: if_splits)
  with r1 show ?case
    by (simp add: delay_def emit_def)
qed

declare init.simps [simp del]

text \<open>\<open>refresh\<close>: the four assignments, then \<open>init\<close>.\<close>

definition refresh :: "config \<Rightarrow> backend \<Rightarrow> manager \<Rightarrow> init_result option outcome \<times> manager" where
  "refresh cfg b m = init cfg b (refresh_clear m)"

text \<open>
  The target of \<open>render\<close>: an element id (found in the document or not), an
  \<open>HTMLElement\<close>, or anything else; and how the load of the iframe ends.
\<close>

datatype container = ElementId bool | Element | NotAContainer

datatype load = Loaded | LoadFailed | LoadTimedOut

text \<open>\<open>_renderWebView\<close> and \<open>_returnApiData\<close>\<close>

definition renderWebView :: "config \<Rightarrow> manager \<Rightarrow> render_result \<times> manager" where
  "renderWebView cfg m =
     (let r = WebviewResult (embedUrl m) (cfg_environment cfg)
      in (r, triggerCallback cfg (OnLoad r) m))"

definition returnApiData :: "config \<Rightarrow> manager \<Rightarrow> render_result \<times> manager" where
  "returnApiData cfg m =
     (let r = ApiResult (accessToken m) (embedUrl m) (cfg_environment cfg)
      in (r, triggerCallback cfg (OnLoad r) m))"

text \<open>
  \<open>_renderIframe\<close> up to the \<open>await\<close> of the load: the checks that throw, then the
  iframe is created with \<open>src = this.embedUrl\<close> (\<open>Inr\<close> of that \<open>src\<close>).
\<close>

definition renderIframe_begin :: "config \<Rightarrow> container \<Rightarrow> manager \<Rightarrow> error + string option" where
  "renderIframe_begin cfg c m =
     (if cfg_environment cfg \<noteq> Web then Inl IframeOnlyWeb
      else case c of
        ElementId found \<Rightarrow> if found then Inr (embedUrl m) else Inl ContainerNotFound
      | Element \<Rightarrow> Inr (embedUrl m)
      | NotAContainer \<Rightarrow> Inl ContainerInvalid)"

text \<open>\<open>_renderIframe\<close> after the \<open>await\<close> of the load.\<close>

fun renderIframe_end ::
  "config \<Rightarrow> string option \<Rightarrow> load \<Rightarrow> manager \<Rightarrow> render_result outcome \<times> manager" where
  "renderIframe_end cfg src Loaded m =
     (Resolved (IframeResult src (embedUrl m)), triggerCallback cfg (OnLoadIframe src) m)"
| "renderIframe_end cfg src LoadFailed m =
     (Rejected IframeLoadError, handleError cfg IframeRenderFailed IframeLoadError m)"
| "renderIframe_end cfg src LoadTimedOut m =
     (Rejected IframeLoadTimeout, handleError cfg IframeRenderFailed IframeLoadTimeout m)"

text \<open>
  The \<open>switch\<close> of \<open>render\<close> on \<open>options.mode || this.config.mode\<close>, with the
  \<open>switch\<close> of \<open>_autoRender\<close> on the environment: \<open>Inl\<close> is what \<open>render\<close> settles to,
  \<open>Inr src\<close> is an iframe whose load is awaited.
\<close>

definition wrap :: "render_result \<times> manager \<Rightarrow> (render_result outcome + string option) \<times> manager" where
  "wrap rm = (Inl (Resolved (fst rm)), snd rm)"

definition iframe_branch ::
  "config \<Rightarrow> container \<Rightarrow> manager \<Rightarrow> (render_result outcome + string option) \<times> manager" where
  "iframe_branch cfg c m =
     (case renderIframe_begin cfg c m of
        Inl e \<Rightarrow> (Inl (Rejected e), m)
      | Inr src \<Rightarrow> (Inr src, m))"

definition render_switch ::
  "config \<Rightarrow> mode option \<Rightarrow> container \<Rightarrow> manager \<Rightarrow>
     (render_result outcome + string option) \<times> manager" where
  "render_switch cfg mo c m =
     (case (case mo of Some md \<Rightarrow> md | None \<Rightarrow> cfg_mode cfg) of
        Iframe \<Rightarrow> iframe_branch cfg c m
      | Webview \<Rightarrow> wrap (renderWebView cfg m)
      | ApiOnly \<Rightarrow> wrap (returnApiData cfg m)
      | Auto \<Rightarrow>
          (case cfg_environment cfg of
             Web \<Rightarrow> iframe_branch cfg c m
           | ReactNative \<Rightarrow> wrap (renderWebView cfg m)
           | _ \<Rightarrow> wrap (returnApiData cfg m)))"

definition dispatch ::
  "config \<Rightarrow> mode option \<Rightarrow> container \<Rightarrow> load \<Rightarrow> manager \<Rightarrow> render_result outcome \<times> manager" where
  "dispatch cfg mo c ld m =
     (case render_switch cfg mo c m of
        (Inl out, m1) \<Rightarrow> (out, m1)
      | (Inr src, m1) \<Rightarrow> renderIframe_end cfg src ld m1)"

definition render ::
  "config \<Rightarrow> backend \<Rightarrow> mode option \<Rightarrow> container \<Rightarrow> load \<Rightarrow> manager \<Rightarrow>
     render_result outcome \<times> manager" where
  "render cfg b mo c ld m =
     (if \<not> isInitialized m
      then (case init cfg b m of
              (Rejected e, m1) \<Rightarrow> (Rejected e, m1)
            | (Resolved _, m1) \<Rightarrow> dispatch cfg mo c ld m1)
      else dispatch cfg mo c ld m)"

section \<open>The methods as interleaved tasks\<close>

text \<open>
  Each call of an \<open>async\<close> method is a task. A task runs until its next \<open>await\<close>, and
  any other task, call or timer may run before it resumes. Its position is:
  \<^item> \<open>AwaitAuth\<close>, \<open>AwaitLink\<close>: the request is sent, the reply is awaited;
  \<^item> \<open>AuthReturned\<close>, \<open>LinkReturned\<close>: the step resolved, \<open>init\<close> resumes after it;
  \<^item> \<open>Thrown e\<close>: a step rejected, \<open>init\<close> resumes in its \<open>catch\<close>;
  \<^item> \<open>Sleeping ms\<close>: in \<open>_delay(ms)\<close> before the retry;
  \<^item> \<open>Settled out\<close>: the promise of \<open>init\<close> settled, its caller resumes;
  \<^item> \<open>AwaitLoad src\<close>: \<open>_renderIframe\<close> awaits the load of the iframe;
  \<^item> \<open>Done r\<close>: the task ended.
\<close>

datatype caller = ByInit | ByRefresh | ByRender "mode option" container | ByTimer | ByConstructor

datatype result =
    InitDone "init_result option outcome"
  | RenderDone "render_result outcome"
  | HandlerDone

datatype pc =
    AwaitAuth
  | AuthReturned
  | AwaitLink
  | LinkReturned
  | Thrown error
  | Sleeping nat
  | Settled "init_result option outcome"
  | AwaitLoad "string option"
  | Done result

record system =
  mgr :: manager
  tasks :: "(caller \<times> pc) list"

text \<open>A call of \<open>init\<close>, up to its first \<open>await\<close> or its \<open>return\<close>.\<close>

definition enter_init :: "manager \<Rightarrow> pc \<times> manager" where
  "enter_init m =
     (if isLoading m then (Settled (Resolved None), m)
      else if isInitialized m \<and> truthy (accessToken m) then (Settled (Resolved None), m)
      else (AwaitAuth, send_auth (m\<lparr>isLoading := True\<rparr>)))"

text \<open>\<open>render\<close> from its \<open>switch\<close> on.\<close>

definition enter_switch :: "config \<Rightarrow> mode option \<Rightarrow> container \<Rightarrow> manager \<Rightarrow> pc \<times> manager" where
  "enter_switch cfg mo c m =
     (case render_switch cfg mo c m of
        (Inl out, m1) \<Rightarrow> (Done (RenderDone out), m1)
      | (Inr src, m1) \<Rightarrow> (AwaitLoad src, m1))"

text \<open>
  What the caller of \<open>init\<close> does when the promise settles: \<open>init\<close> and \<open>refresh\<close> pass
  it on, \<open>render\<close> goes on to its \<open>switch\<close> or rejects, the timer callback reports
  \<open>onTokenExpired\<close> or the error, the constructor reports the error.
\<close>

fun continue :: "config \<Rightarrow> caller \<Rightarrow> init_result option outcome \<Rightarrow> manager \<Rightarrow> pc \<times> manager" where
  "continue cfg ByInit out m = (Done (InitDone out), m)"
| "continue cfg ByRefresh out m = (Done (InitDone out), m)"
| "continue cfg (ByRender mo c) (Rejected e) m = (Done (RenderDone (Rejected e)), m)"
| "continue cfg (ByRender mo c) (Resolved r) m = enter_switch cfg mo c m"
| "continue cfg ByTimer (Resolved r) m =
     (Done HandlerDone, triggerCallback cfg (OnTokenExpired (accessToken m)) m)"
| "continue cfg ByTimer (Rejected e) m = (Done HandlerDone, handleError cfg TokenRefreshFailed e m)"
| "continue cfg ByConstructor (Resolved r) m = (Done HandlerDone, m)"
| "continue cfg ByConstructor (Rejected e) m = (Done HandlerDone, handleError cfg AutoInitFailed e m)"

text \<open>A task that is not waiting for a reply, a timer or a load runs to its next \<open>await\<close>.\<close>

fun resume :: "config \<Rightarrow> caller \<Rightarrow> pc \<Rightarrow> manager \<Rightarrow> pc \<times> manager" where
  "resume cfg c AuthReturned m =
     (case send_link m of (Some e, m1) \<Rightarrow> (Thrown e, m1) | (None, m1) \<Rightarrow> (AwaitLink, m1))"
| "resume cfg c LinkReturned m =
     (case init_success cfg m of (r, m1) \<Rightarrow> (Settled (Resolved (Some r)), m1))"
| "resume cfg c (Thrown e) m =
     (case init_catch cfg e m of
        (Inl ms, m1) \<Rightarrow> (Sleeping ms, delay cfg ms m1)
      | (Inr e', m1) \<Rightarrow> (Settled (Rejected e'), m1))"
| "resume cfg c (Settled out) m = continue cfg c out m"
| "resume cfg c p m = (p, m)"

fun after_auth :: "error option \<times> manager \<Rightarrow> pc \<times> manager" where
  "after_auth (None, m) = (AuthReturned, m)"
| "after_auth (Some e, m) = (Thrown e, m)"

fun after_link :: "error option \<times> manager \<Rightarrow> pc \<times> manager" where
  "after_link (None, m) = (LinkReturned, m)"
| "after_link (Some e, m) = (Thrown e, m)"

fun after_load :: "render_result outcome \<times> manager \<Rightarrow> pc \<times> manager" where
  "after_load (out, m) = (Done (RenderDone out), m)"

text \<open>
  What can happen next: a call from outside, the refresh timer firing, a reply or a
  load event arriving for task \<open>i\<close>, task \<open>i\<close> resuming, the back-off of task \<open>i\<close>
  ending.
\<close>

datatype action =
    CallInit
  | CallRefresh
  | CallRender "mode option" container
  | CallDestroy
  | TimerFires
  | AuthReply nat "auth_data reply"
  | LinkReply nat "link_data reply"
  | Resume nat
  | DelayElapsed nat
  | IframeLoad nat load

definition spawn :: "caller \<Rightarrow> pc \<times> manager \<Rightarrow> system \<Rightarrow> system" where
  "spawn c pm s = \<lparr>mgr = snd pm, tasks = tasks s @ [(c, fst pm)]\<rparr>"

definition advance :: "nat \<Rightarrow> pc \<times> manager \<Rightarrow> system \<Rightarrow> system" where
  "advance i pm s = \<lparr>mgr = snd pm, tasks = (tasks s)[i := (fst (tasks s ! i), fst pm)]\<rparr>"

definition position :: "system \<Rightarrow> nat \<Rightarrow> pc option" where
  "position s i = (if i < length (tasks s) then Some (snd (tasks s ! i)) else None)"

text \<open>An action that is not enabled leaves the system as it is.\<close>

fun step :: "config \<Rightarrow> action \<Rightarrow> system \<Rightarrow> system" where
  "step cfg CallInit s = spawn ByInit (enter_init (mgr s)) s"
| "step cfg CallRefresh s = spawn ByRefresh (enter_init (refresh_clear (mgr s))) s"
| "step cfg (CallRender mo c) s =
     (if \<not> isInitialized (mgr s) then spawn (ByRender mo c) (enter_init (mgr s)) s
      else spawn (ByRender mo c) (enter_switch cfg mo c (mgr s)) s)"
| "step cfg CallDestroy s = s\<lparr>mgr := destroy cfg (mgr s)\<rparr>"
| "step cfg TimerFires s =
     (if timerPending (mgr s)
      then spawn ByTimer (enter_init (refresh_clear ((mgr s)\<lparr>timerPending := False\<rparr>))) s
      else s)"
| "step cfg (AuthReply i r) s =
     (if position s i = Some AwaitAuth then advance i (after_auth (auth_received cfg r (mgr s))) s else s)"
| "step cfg (LinkReply i r) s =
     (if position s i = Some AwaitLink then advance i (after_link (link_received r (mgr s))) s else s)"
| "step cfg (Resume i) s =
     (if i < length (tasks s)
      then advance i (resume cfg (fst (tasks s ! i)) (snd (tasks s ! i)) (mgr s)) s
      else s)"
| "step cfg (DelayElapsed i) s =
     (case position s i of
        Some (Sleeping ms) \<Rightarrow> advance i (enter_init (mgr s)) s
      | _ \<Rightarrow> s)"
| "step cfg (IframeLoad i ld) s =
     (case position s i of
        Some (AwaitLoad src) \<Rightarrow> advance i (after_load (renderIframe_end cfg src ld (mgr s))) s
      | _ \<Rightarrow> s)"

fun run :: "config \<Rightarrow> action list \<Rightarrow> system \<Rightarrow> system" where
  "run cfg [] s = s"
| "run cfg (a # as) s = run cfg as (step cfg a s)"

text \<open>
  The constructor: it throws without an API key; otherwise it assigns the fields and,
  when \<open>autoInit\<close> is on, calls \<open>init\<close>. \<open>autoInit\<close> is the caller's value if given and
  "the environment is web" if not.
\<close>

definition autoInit :: "config \<Rightarrow> bool" where
  "autoInit cfg = (case cfg_autoInit cfg of Some a \<Rightarrow> a | None \<Rightarrow> cfg_environment cfg = Web)"

definition boot :: "config \<Rightarrow> system" where
  "boot cfg =
     (let s = \<lparr>mgr = fresh, tasks = []\<rparr>
      in if autoInit cfg then spawn ByConstructor (enter_init fresh) s else s)"

definition construct :: "config \<Rightarrow> error + system" where
  "construct cfg = (if apiKey cfg = [] then Inl ApiKeyRequired else Inr (boot cfg))"

section \<open>Running one call without interruption\<close>

text \<open>
  The schedule under which task \<open>i\<close>, having called \<open>init\<close> on manager \<open>m\<close>, gets the
  backend's replies and resumes with nothing else in between: one attempt, and the
  attempts with their back-off delays.
\<close>

definition attempt_schedule :: "config \<Rightarrow> backend \<Rightarrow> nat \<Rightarrow> manager \<Rightarrow> action list" where
  "attempt_schedule cfg b i m =
     AuthReply i (auth_reply b (nAuth m)) # Resume i #
       (case authenticate cfg b m of
          (Some e, m1) \<Rightarrow> []
        | (None, m1) \<Rightarrow>
            (case send_link m1 of
               (Some e, m2) \<Rightarrow> [Resume i]
             | (None, m2) \<Rightarrow> [LinkReply i (link_reply b (nLink m1)), Resume i]))"

function init_schedule :: "config \<Rightarrow> backend \<Rightarrow> nat \<Rightarrow> manager \<Rightarrow> action list" where
  "init_schedule cfg b i m =
     (if isLoading m then []
      else if isInitialized m \<and> truthy (accessToken m) then []
      else
        attempt_schedule cfg b i (m\<lparr>isLoading := True\<rparr>) @
        (case try_block cfg b (m\<lparr>isLoading := True\<rparr>) of
           (Inr r, m1) \<Rightarrow> []
         | (Inl e, m1) \<Rightarrow>
             (case init_catch cfg e m1 of
                (Inl ms, m2) \<Rightarrow> DelayElapsed i # init_schedule cfg b i (delay cfg ms m2)
              | (Inr e', m2) \<Rightarrow> [])))"
  by pat_completeness auto
termination
proof (relation "measure (\<lambda>(cfg, b, i, m). maxRetries - retryCount m)", goal_cases)
  case 1
  show ?case by simp
next
  case (2 cfg b i m x m1 e y m2 ms)
  from 2 have "try_block cfg b (m\<lparr>isLoading := True\<rparr>) = (Inl e, m1)"
    by simp
  then have r1: "retryCount m1 = retryCount m"
    by (auto simp: try_block_def authenticate_def generateEmbedLink_def auth_received_def
        link_received_def send_auth_def send_link_def scheduleTokenRefresh_def emit_def
        init_success_def Let_def
        split: prod.splits option.splits sum.splits if_splits)
  from 2 have "init_catch cfg e m1 = (Inl ms, m2)"
    by simp
  then have "retryCount m1 < maxRetries" and "retryCount m2 = retryCount m1 + 1"
    by (auto simp: init_catch_def Let_def split: if_splits)
  with r1 show ?case
    by (simp add: delay_def emit_def)
qed

declare init_schedule.simps [simp del]

text \<open>Where the last resumption of an attempt leaves the task and the manager.\<close>

definition attempt_end :: "config \<Rightarrow> backend \<Rightarrow> manager \<Rightarrow> pc \<times> manager" where
  "attempt_end cfg b m =
     (case try_block cfg b m of
        (Inr r, m1) \<Rightarrow> (Settled (Resolved (Some r)), m1)
      | (Inl e, m1) \<Rightarrow>
          (case init_catch cfg e m1 of
             (Inl ms, m2) \<Rightarrow> (Sleeping ms, delay cfg ms m2)
           | (Inr e', m2) \<Rightarrow> (Settled (Rejected e'), m2)))"

text \<open>
  A sequence of operations, each run to completion before the next: the four methods, and
  the callback of the refresh timer when one is pending.
\<close>

datatype op = Init | Refresh | Destroy | Render "mode option" container load | TimerDue

definition timer_callback :: "config \<Rightarrow> backend \<Rightarrow> manager \<Rightarrow> manager" where
  "timer_callback cfg b m =
     (if \<not> timerPending m then m
      else
        case refresh cfg b (m\<lparr>timerPending := False\<rparr>) of
          (Resolved r, m1) \<Rightarrow> triggerCallback cfg (OnTokenExpired (accessToken m1)) m1
        | (Rejected e, m1) \<Rightarrow> handleError cfg TokenRefreshFailed e m1)"

fun perform :: "config \<Rightarrow> backend \<Rightarrow> op \<Rightarrow> manager \<Rightarrow> manager" where
  "perform cfg b Init m = snd (init cfg b m)"
| "perform cfg b Refresh m = snd (refresh cfg b m)"
| "perform cfg b Destroy m = destroy cfg m"
| "perform cfg b (Render mo c ld) m = snd (render cfg b mo c ld m)"
| "perform cfg b TimerDue m = timer_callback cfg b m"

fun perform_all :: "config \<Rightarrow> backend \<Rightarrow> op list \<Rightarrow> manager \<Rightarrow> manager" where
  "perform_all cfg b [] m = m"
| "perform_all cfg b (x # xs) m = perform_all cfg b xs (perform cfg b x m)"

section \<open>The first version of the SDK (class \<open>SintesisPasarela\<close>)\<close>

text \<open>
  The first version has the token, the URL and \<open>isInitialized\<close> only: no loading flag, no
  retry, no timer, no \<open>destroy\<close>. \<open>init\<close> authenticates and generates the link; an error of
  either step is reported and thrown again. The methods are modelled run to completion;
  \<open>l_nAuth\<close> and \<open>l_nLink\<close> count the requests.
\<close>

record legacy =
  l_accessToken :: "string option"
  l_embedUrl :: "string option"
  l_isInitialized :: bool
  l_nAuth :: nat
  l_nLink :: nat

fun legacy_detail :: "string option \<Rightarrow> detail" where
  "legacy_detail None = Unreported"
| "legacy_detail (Some s) = Reported s"

fun legacy_auth_check :: "auth_data reply \<Rightarrow> error + string option" where
  "legacy_auth_check (Failure cause) = Inl (NetworkError cause)"
| "legacy_auth_check (Json success data message) =
     (if \<not> success then Inl (AuthError (legacy_detail message))
      else case data of
        None \<Rightarrow> Inl TypeError
      | Some d \<Rightarrow>
          if truthy (data_accessToken d) then Inr (data_accessToken d)
          else Inl (AuthError (legacy_detail message)))"

fun legacy_link_check :: "link_data reply \<Rightarrow> error + string option" where
  "legacy_link_check (Failure cause) = Inl (NetworkError cause)"
| "legacy_link_check (Json success data message) =
     (if \<not> success then Inl (LinkError (legacy_detail message))
      else case data of
        None \<Rightarrow> Inl TypeError
      | Some d \<Rightarrow>
          if truthy (data_embedUrl d) then Inr (data_embedUrl d)
          else Inl (LinkError (legacy_detail message)))"

text \<open>\<open>init\<close>, with \<open>_authenticate\<close> and \<open>_generateEmbedLink\<close> in it.\<close>

definition legacy_init :: "backend \<Rightarrow> legacy \<Rightarrow> unit outcome \<times> legacy" where
  "legacy_init b m =
     (let m1 = m\<lparr>l_nAuth := l_nAuth m + 1\<rparr> in
      case legacy_auth_check (auth_reply b (l_nAuth m)) of
        Inl e \<Rightarrow> (Rejected e, m1)
      | Inr tok \<Rightarrow>
          (let m2 = m1\<lparr>l_accessToken := tok, l_nLink := l_nLink m1 + 1\<rparr> in
           case legacy_link_check (link_reply b (l_nLink m)) of
             Inl e \<Rightarrow> (Rejected e, m2)
           | Inr url \<Rightarrow> (Resolved (), m2\<lparr>l_embedUrl := url, l_isInitialized := True\<rparr>)))"

definition legacy_refresh :: "backend \<Rightarrow> legacy \<Rightarrow> unit outcome \<times> legacy" where
  "legacy_refresh b m =
     legacy_init b (m\<lparr>l_isInitialized := False, l_accessToken := None, l_embedUrl := None\<rparr>)"

text \<open>
  \<open>render\<close>: \<open>init\<close> first when not initialized, then the container is resolved and the
  iframe attached; the result is the \<open>src\<close> of the iframe.
\<close>

definition legacy_render :: "backend \<Rightarrow> container \<Rightarrow> legacy \<Rightarrow> string option outcome \<times> legacy" where
  "legacy_render b c m =
     (let attach = (\<lambda>m'. case c of
            ElementId found \<Rightarrow>
              if found then Resolved (l_embedUrl m') else Rejected ContainerNotFound
          | Element \<Rightarrow> Resolved (l_embedUrl m')
          | NotAContainer \<Rightarrow> Rejected ContainerInvalid)
      in if \<not> l_isInitialized m
         then (case legacy_init b m of
                 (Rejected e, m1) \<Rightarrow> (Rejected e, m1)
               | (Resolved u, m1) \<Rightarrow> (attach m1, m1))
         else (attach m, m))"

definition legacy_fresh :: legacy where
  "legacy_fresh = \<lparr>l_accessToken = None, l_embedUrl = None, l_isInitialized = False,
                    l_nAuth = 0, l_nLink = 0\<rparr>"

datatype legacy_op = LInit | LRefresh | LRender container

fun legacy_perform :: "backend \<Rightarrow> legacy_op \<Rightarrow> legacy \<Rightarrow> legacy" where
  "legacy_perform b LInit m = snd (legacy_init b m)"
| "legacy_perform b LRefresh m = snd (legacy_refresh b m)"
| "legacy_perform b (LRender c) m = snd (legacy_render b c m)"

fun legacy_perform_all :: "backend \<Rightarrow> legacy_op list \<Rightarrow> legacy \<Rightarrow> legacy" where
  "legacy_perform_all b [] m = m"
| "legacy_perform_all b (x # xs) m = legacy_perform_all b xs (legacy_perform b x m)"

definition legacy_consistent :: "legacy \<Rightarrow> bool" where
  "legacy_consistent m =
     ((l_embedUrl m \<noteq> None \<longrightarrow> l_accessToken m \<noteq> None)
      \<and> (l_isInitialized m \<longrightarrow> l_accessToken m \<noteq> None \<and> l_embedUrl m \<noteq> None))"

section \<open>Observations on tasks\<close>

text \<open>
  A task is in an attempt of \<open>init\<close> from \<open>this.isLoading = true\<close> to the end of the
  \<open>try\<close> block or the \<open>catch\<close> block; it is on the network while a request is awaited.
\<close>

fun attempting :: "pc \<Rightarrow> bool" where
  "attempting AwaitAuth = True"
| "attempting AuthReturned = True"
| "attempting AwaitLink = True"
| "attempting LinkReturned = True"
| "attempting (Thrown e) = True"
| "attempting p = False"

fun on_network :: "pc \<Rightarrow> bool" where
  "on_network AwaitAuth = True"
| "on_network AwaitLink = True"
| "on_network p = False"

definition in_flight :: "system \<Rightarrow> nat" where
  "in_flight s = length (filter (\<lambda>t. attempting (snd t)) (tasks s))"

definition on_wire :: "system \<Rightarrow> nat" where
  "on_wire s = length (filter (\<lambda>t. on_network (snd t)) (tasks s))"

text \<open>The loading flag says whether an attempt is in flight, and there is at most one.\<close>

definition balanced :: "system \<Rightarrow> bool" where
  "balanced s = (in_flight s = (if isLoading (mgr s) then 1 else 0))"

text \<open>
  The invariant of the session: a URL only with a token, and initialized only with both.
\<close>

definition consistent :: "manager \<Rightarrow> bool" where
  "consistent m =
     ((embedUrl m \<noteq> None \<longrightarrow> accessToken m \<noteq> None)
      \<and> (isInitialized m \<longrightarrow> accessToken m \<noteq> None \<and> embedUrl m \<noteq> None))"

text \<open>
  A task has its link generation pending from the request to the resumption of \<open>init\<close>
  after it. \<open>refresh\<close>, \<open>destroy\<close> and the timer callback are the actions that clear the
  token; a schedule is orderly when each of them runs while no link generation is pending.
\<close>

fun link_pending :: "pc \<Rightarrow> bool" where
  "link_pending AwaitLink = True"
| "link_pending LinkReturned = True"
| "link_pending p = False"

fun clears_token :: "action \<Rightarrow> bool" where
  "clears_token CallRefresh = True"
| "clears_token CallDestroy = True"
| "clears_token TimerFires = True"
| "clears_token a = False"

definition quiet :: "system \<Rightarrow> bool" where
  "quiet s = list_all (\<lambda>t. \<not> link_pending (snd t)) (tasks s)"

fun orderly :: "config \<Rightarrow> action list \<Rightarrow> system \<Rightarrow> bool" where
  "orderly cfg [] s = True"
| "orderly cfg (a # as) s = ((clears_token a \<longrightarrow> quiet s) \<and> orderly cfg as (step cfg a s))"

text \<open>
  What a pending link generation relies on, and the invariant of an orderly schedule.
\<close>

fun needs :: "manager \<Rightarrow> pc \<Rightarrow> bool" where
  "needs m AwaitLink = (accessToken m \<noteq> None)"
| "needs m LinkReturned = (accessToken m \<noteq> None \<and> embedUrl m \<noteq> None)"
| "needs m p = True"

definition sound :: "system \<Rightarrow> bool" where
  "sound s = (consistent (mgr s) \<and> (\<forall>t \<in> set (tasks s). needs (mgr s) (snd t)))"

definition keeps :: "manager \<Rightarrow> manager \<Rightarrow> bool" where
  "keeps m m' =
     ((accessToken m \<noteq> None \<longrightarrow> accessToken m' \<noteq> None)
      \<and> (embedUrl m \<noteq> None \<longrightarrow> embedUrl m' \<noteq> None))"

text \<open>
  The tokens an action hands to the manager: the token of an authentication reply that
  passes the test of \<open>_authenticate\<close>.
\<close>

fun granted :: "action \<Rightarrow> string option list" where
  "granted (AuthReply i r) = (case auth_check r of Inl e \<Rightarrow> [] | Inr (tok, expiresIn) \<Rightarrow> [tok])"
| "granted a = []"

section \<open>Observations and example inputs\<close>

fun is_onError :: "event \<Rightarrow> bool" where
  "is_onError (OnError ctx e st) = True"
| "is_onError ev = False"

text \<open>The requests and the back-off waits of a trace.\<close>

fun is_step :: "event \<Rightarrow> bool" where
  "is_step HttpAuth = True"
| "is_step (HttpLink tok) = True"
| "is_step (Waited ms) = True"
| "is_step ev = False"

text \<open>A Node host with every observer registered and \<open>autoInit\<close> left to its default.\<close>

definition node_config :: config where
  "node_config =
     \<lparr>apiKey = ''0123456789='', cfg_environment = Node, cfg_mode = Auto, cfg_autoInit = None,
      has_onSuccess = True, has_onError = True, has_onLoad = True, has_onTokenExpired = True,
      hasTimers = True\<rparr>"

definition token_reply :: "rat option \<Rightarrow> auth_data reply" where
  "token_reply hint =
     Json True (Some \<lparr>data_accessToken = Some ''T'', data_expiresIn = hint\<rparr>) None"

definition url_reply :: "link_data reply" where
  "url_reply = Json True (Some \<lparr>data_embedUrl = Some ''U''\<rparr>) None"

text \<open>Backends: every request fails; authentication works and the link never does;
  authentication fails twice and everything works from then on.\<close>

definition unreachable :: backend where
  "unreachable = \<lparr>auth_reply = (\<lambda>n. Failure ''down''), link_reply = (\<lambda>n. Failure ''down'')\<rparr>"

definition no_links :: backend where
  "no_links = \<lparr>auth_reply = (\<lambda>n. token_reply None), link_reply = (\<lambda>n. Failure ''down'')\<rparr>"

definition flaky :: backend where
  "flaky =
     \<lparr>auth_reply = (\<lambda>n. if n < 2 then Failure ''down'' else token_reply (Some 1800)),
      link_reply = (\<lambda>n. url_reply)\<rparr>"


definition rotating :: backend where
  "rotating =
     \<lparr>auth_reply =
        (\<lambda>n. Json True (Some \<lparr>data_accessToken = Some (replicate (Suc n) CHR ''T''),
                                 data_expiresIn = None\<rparr>) None),
      link_reply = (\<lambda>n. url_reply)\<rparr>"

text \<open>The manager after \<open>init\<close> on \<open>rotating\<close>, and after a \<open>refresh\<close> that follows.\<close>

definition ready_T :: manager where
  "ready_T =
     \<lparr>accessToken = Some ''T'', embedUrl = Some ''U'', isInitialized = True,
      isLoading = False, retryCount = 0, refreshTimeout = Some (Finite 1740000),
      timerPending = True,
      trace = [HttpAuth, TimerSet (Finite 1740000), HttpLink (Some ''T''),
               OnSuccess (Some ''T'') (Some ''U'')],
      nAuth = 1, nLink = 1\<rparr>"

definition ready_TT :: manager where
  "ready_TT =
     \<lparr>accessToken = Some ''TT'', embedUrl = Some ''U'', isInitialized = True,
      isLoading = False, retryCount = 0, refreshTimeout = Some (Finite 1740000),
      timerPending = True,
      trace = [HttpAuth, TimerSet (Finite 1740000), HttpLink (Some ''T''),
               OnSuccess (Some ''T'') (Some ''U''), HttpAuth, TimerCleared,
               TimerSet (Finite 1740000), HttpLink (Some ''TT''),
               OnSuccess (Some ''TT'') (Some ''U'')],
      nAuth = 2, nLink = 2\<rparr>"

text \<open>
  The manager after an attempt of \<open>init\<close> whose authentication failed, with the back-off
  that follows it; and after an attempt in which both steps succeeded.
\<close>

definition retried :: "config \<Rightarrow> manager \<Rightarrow> manager" where
  "retried cfg m =
     delay cfg (1000 * (retryCount m + 1))
       ((send_auth (m\<lparr>isLoading := True\<rparr>))\<lparr>isLoading := False, retryCount := retryCount m + 1\<rparr>)"

definition completed ::
  "config \<Rightarrow> string option \<Rightarrow> number \<Rightarrow> string option \<Rightarrow> manager \<Rightarrow> manager" where
  "completed cfg tok expiresIn url m =
     snd (init_success cfg
       ((emit (HttpLink tok)
          ((scheduleTokenRefresh cfg expiresIn
              ((send_auth (m\<lparr>isLoading := True\<rparr>))\<lparr>accessToken := tok\<rparr>))
             \<lparr>nLink := nLink m + 1\<rparr>))\<lparr>embedUrl := url\<rparr>))"

section \<open>Whole numbers are computed exactly\<close>

lemma round_even_of_int: "round_even (of_int n) = n"
  by (simp add: round_even_def)

lemma binade_of_int_le: "binade (of_int k) \<le> bitlen \<bar>k\<bar> - 1"
proof -
  have "\<bar>rat_of_int k\<bar> = rat_of_int \<bar>k\<bar>"
    by simp
  then have "quotient_of \<bar>rat_of_int k\<bar> = (\<bar>k\<bar>, 1)"
    by (simp only: quotient_of_rat_of_int)
  moreover have "bitlen 1 = 1"
    by (simp add: bitlen_alt_def)
  ultimately show ?thesis
    by (simp add: binade_def Let_def)
qed

text \<open>An integer below \<open>2 ^ 53\<close> in absolute value is a double.\<close>

lemma to_double_of_int:
  assumes "\<bar>k\<bar> < 2 ^ 53"
  shows "to_double (of_int k) = Finite (of_int k)"
proof (cases "k = 0")
  case True
  then show ?thesis by (simp add: to_double_def)
next
  case False
  let ?x = "rat_of_int k"
  let ?e = "max (binade ?x) (- 1022)"
  have "bitlen \<bar>k\<bar> \<le> 53"
    using assms by (simp add: bitlen_le_iff_power)
  with binade_of_int_le [of k] have e: "?e \<le> 52" "- 1022 \<le> ?e"
    by simp_all
  define j where "j = nat (52 - ?e)"
  have ej: "?e - 52 = - int j"
    using e by (simp add: j_def)
  have q: "(2::rat) powi (?e - 52) = 1 / 2 ^ j"
    unfolding ej by (simp add: power_int_minus_divide)
  have "?x / (1 / 2 ^ j) = rat_of_int (k * 2 ^ j)"
    by simp
  then have r: "round_even (?x / (1 / 2 ^ j)) = k * 2 ^ j"
    by (simp only: round_even_of_int)
  have y: "rat_of_int (k * 2 ^ j) * (1 / 2 ^ j) = ?x"
    by simp
  have "\<bar>?x\<bar> < 2 ^ 53"
    using assms by (metis of_int_abs of_int_less_numeral_power_cancel_iff)
  also have "\<dots> \<le> (2::rat) powi 1024"
    by simp
  finally have small: "\<not> (2::rat) powi 1024 \<le> \<bar>?x\<bar>"
    by simp
  have val: "rat_of_int (round_even (?x / 2 powi (?e - 52))) * 2 powi (?e - 52) = ?x"
    by (simp only: q r y)
  have nz: "?x \<noteq> 0"
    using False by simp
  show ?thesis
    unfolding to_double_def Let_def val using nz small by simp
qed

text \<open>
  For a whole number of seconds \<open>n\<close> with \<open>\<bar>(n - 60) * 1000\<bar> < 2 ^ 53\<close>, the hint is read
  and the delay computed without rounding.
\<close>

lemma refreshTime_whole:
  assumes "\<bar>(n - 60) * 1000\<bar> < (2::int) ^ 53"
  shows "to_double (of_int n) = Finite (of_int n)"
    and "refreshTime (Finite (of_int n)) = Finite (of_int ((n - 60) * 1000))"
proof -
  from assms have a: "\<bar>n\<bar> < 2 ^ 53" and b: "\<bar>n - 60\<bar> < 2 ^ 53"
    by simp_all
  show "to_double (of_int n) = Finite (of_int n)"
    using a by (rule to_double_of_int)
  have "to_double (rat_of_int n - 60) = Finite (rat_of_int (n - 60))"
    using to_double_of_int [OF b] by simp
  moreover have "to_double (rat_of_int (n - 60) * 1000) = Finite (rat_of_int ((n - 60) * 1000))"
    using to_double_of_int [OF assms] by simp
  ultimately show "refreshTime (Finite (of_int n)) = Finite (of_int ((n - 60) * 1000))"
    by (simp add: refreshTime_def)
qed

lemma effective_expiry_whole:
  assumes "\<bar>(n - 60) * 1000\<bar> < (2::int) ^ 53"
  shows "effective_expiry (Some (of_int n)) = Finite (of_int (if n = 0 then 1800 else n))"
  using refreshTime_whole(1) [OF assms] by simp

text \<open>The numbers of the examples.\<close>

lemma example_numbers:
  "to_double 30 = Finite 30"
  "to_double 1800 = Finite 1800"
  "refreshTime (Finite 30) = Finite (- 30000)"
  "refreshTime (Finite 1800) = Finite 1740000"
  using refreshTime_whole [of 30] refreshTime_whole [of 1800]
  by simp_all

section \<open>Retries of \<open>init\<close>\<close>

lemmas method_defs =
  try_block_def authenticate_def generateEmbedLink_def auth_received_def link_received_def
  send_auth_def send_link_def scheduleTokenRefresh_def emit_def init_success_def
  init_catch_def triggerCallback_def handleError_def getStatus_def delay_def Let_def

lemmas task_defs =
  spawn_def advance_def position_def enter_init_def enter_switch_def render_switch_def
  refresh_clear_def destroy_def boot_def autoInit_def

lemmas example_defs =
  fresh_def node_config_def token_reply_def url_reply_def maxRetries_def

lemma scheduleTokenRefresh_fields:
  "accessToken (scheduleTokenRefresh cfg x m) = accessToken m"
  "embedUrl (scheduleTokenRefresh cfg x m) = embedUrl m"
  "isInitialized (scheduleTokenRefresh cfg x m) = isInitialized m"
  "isLoading (scheduleTokenRefresh cfg x m) = isLoading m"
  "retryCount (scheduleTokenRefresh cfg x m) = retryCount m"
  "nAuth (scheduleTokenRefresh cfg x m) = nAuth m"
  "nLink (scheduleTokenRefresh cfg x m) = nLink m"
  by (simp_all add: scheduleTokenRefresh_def Let_def emit_def)

lemma auth_check_truthy: "auth_check r = Inr (tok, expiresIn) \<Longrightarrow> truthy tok"
  by (cases r) (auto split: if_splits option.splits)

lemma link_check_truthy: "link_check r = Inr url \<Longrightarrow> truthy url"
  by (cases r) (auto split: if_splits option.splits)

lemma try_block_auth_fails:
  assumes "auth_check (auth_reply b (nAuth m)) = Inl e"
  shows "try_block cfg b m = (Inl e, send_auth m)"
  using assms
  by (simp add: try_block_def authenticate_def auth_received_def send_auth_def emit_def)

text \<open>
  When every authentication fails, \<open>init\<close> sends one request per remaining retry and one
  more, rejects with the error of the last one, and reports it once.
\<close>

lemma init_all_fail:
  assumes "\<And>n. auth_check (auth_reply b n) = Inl (err n)"
    and "\<not> isLoading m" and "\<not> (isInitialized m \<and> truthy (accessToken m))"
    and "retryCount m \<le> maxRetries" and "has_onError cfg"
    and "init cfg b m = (out, m')"
  shows "out = Rejected (err (nAuth m + (maxRetries - retryCount m)))
       \<and> nAuth m' = nAuth m + (maxRetries - retryCount m) + 1
       \<and> nLink m' = nLink m
       \<and> retryCount m' = maxRetries
       \<and> filter is_onError (trace m') = filter is_onError (trace m) @
            [OnError InitFailed (err (nAuth m + (maxRetries - retryCount m))) (getStatus cfg m')]
       \<and> accessToken m' = accessToken m \<and> embedUrl m' = embedUrl m
       \<and> isInitialized m' = isInitialized m \<and> \<not> isLoading m'"
  using assms
proof (induction cfg b m arbitrary: out m' rule: init.induct)
  case (1 cfg b m)
  let ?m0 = "m\<lparr>isLoading := True\<rparr>"
  let ?e = "err (nAuth m)"
  have tb: "try_block cfg b ?m0 = (Inl ?e, send_auth ?m0)"
    by (rule try_block_auth_fails) (simp add: "1.prems"(1))
  have nl: "isLoading m = False"
    and ng: "(isInitialized m \<and> truthy (accessToken m)) = False"
    using "1.prems"(2,3) by simp_all
  show ?case
  proof (cases "retryCount m < maxRetries")
    case True
    let ?m2 = "(send_auth ?m0)\<lparr>isLoading := False, retryCount := retryCount m + 1\<rparr>"
    let ?ms = "1000 * (retryCount m + 1)"
    let ?next = "delay cfg ?ms ?m2"
    have ic: "init_catch cfg ?e (send_auth ?m0) = (Inl ?ms, ?m2)"
      using True by (simp add: init_catch_def Let_def send_auth_def emit_def)
    have unfold: "init cfg b m = init cfg b ?next"
      by (subst init.simps) (simp add: nl ng tb ic)
    have ih: "out = Rejected (err (nAuth ?next + (maxRetries - retryCount ?next)))
       \<and> nAuth m' = nAuth ?next + (maxRetries - retryCount ?next) + 1
       \<and> nLink m' = nLink ?next
       \<and> retryCount m' = maxRetries
       \<and> filter is_onError (trace m') = filter is_onError (trace ?next) @
            [OnError InitFailed (err (nAuth ?next + (maxRetries - retryCount ?next)))
               (getStatus cfg m')]
       \<and> accessToken m' = accessToken ?next \<and> embedUrl m' = embedUrl ?next
       \<and> isInitialized m' = isInitialized ?next \<and> \<not> isLoading m'"
    proof (rule "1.IH" [OF "1.prems"(2) "1.prems"(3) tb [symmetric] refl ic [symmetric] refl])
      show "\<And>n. auth_check (auth_reply b n) = Inl (err n)"
        by (rule "1.prems"(1))
      show "\<not> isLoading ?next"
        by (simp add: delay_def emit_def)
      show "\<not> (isInitialized ?next \<and> truthy (accessToken ?next))"
        using "1.prems"(3) by (simp add: delay_def emit_def send_auth_def)
      show "retryCount ?next \<le> maxRetries"
        using True by (simp add: delay_def emit_def)
      show "has_onError cfg"
        by (rule "1.prems"(5))
      show "init cfg b ?next = (out, m')"
        using unfold "1.prems"(6) by simp
    qed
    have f: "nAuth ?next = nAuth m + 1"
      "retryCount ?next = retryCount m + 1"
      "nLink ?next = nLink m"
      "filter is_onError (trace ?next) = filter is_onError (trace m)"
      "accessToken ?next = accessToken m"
      "embedUrl ?next = embedUrl m"
      "isInitialized ?next = isInitialized m"
      by (simp_all add: delay_def emit_def send_auth_def)
    have idx: "nAuth m + 1 + (maxRetries - (retryCount m + 1)) = nAuth m + (maxRetries - retryCount m)"
      using True by simp
    from ih show ?thesis
      unfolding f idx using True by simp
  next
    case False
    with "1.prems"(4) have eq: "retryCount m = maxRetries"
      by simp
    let ?m1 = "(send_auth ?m0)\<lparr>isLoading := False\<rparr>"
    have ic: "init_catch cfg ?e (send_auth ?m0) = (Inr ?e, handleError cfg InitFailed ?e ?m1)"
      using False by (simp add: init_catch_def Let_def send_auth_def emit_def)
    have "init cfg b m = (Rejected ?e, handleError cfg InitFailed ?e ?m1)"
      by (subst init.simps) (simp add: nl ng tb ic)
    with "1.prems"(6) have out: "out = Rejected ?e"
      and m': "m' = handleError cfg InitFailed ?e ?m1"
      by simp_all
    show ?thesis
      unfolding out m' using eq "1.prems"(5)
      by (simp add: handleError_def triggerCallback_def emit_def send_auth_def getStatus_def)
  qed
qed

text \<open>
  C1. With a backend whose every authentication fails, \<open>init\<close> on a manager that is neither
  loading nor ready and whose retry counter is 0 sends \<open>maxRetries + 1 = 4\<close> authentication
  requests and no link request, rejects with the error of the fourth attempt, and calls
  the \<open>onError\<close> observer exactly once, with the context of \<open>init\<close>, that error (whose
  message is reported) and the status at that moment: not loading, retry counter 3.
\<close>

theorem init_gives_up_after_maxRetries:
  assumes "\<And>n. auth_check (auth_reply b n) = Inl (err n)"
    and "\<not> isLoading m" and "\<not> (isInitialized m \<and> truthy (accessToken m))"
    and "retryCount m = 0" and "has_onError cfg"
  shows "\<exists>m'. init cfg b m = (Rejected (err (nAuth m + 3)), m')
       \<and> nAuth m' = nAuth m + 4 \<and> maxRetries + 1 = 4
       \<and> nLink m' = nLink m
       \<and> filter is_onError (trace m') = filter is_onError (trace m) @
            [OnError InitFailed (err (nAuth m + 3)) (getStatus cfg m')]
       \<and> getStatus cfg m' = (getStatus cfg m)\<lparr>st_retryCount := 3\<rparr>"
proof -
  obtain out m' where run: "init cfg b m = (out, m')"
    by (cases "init cfg b m")
  have le: "retryCount m \<le> maxRetries"
    using assms(4) by simp
  note all = init_all_fail [OF assms(1) assms(2) assms(3) le assms(5) run]
  have "getStatus cfg m' = (getStatus cfg m)\<lparr>st_retryCount := 3\<rparr>"
    using all assms(2) by (simp add: getStatus_def maxRetries_def)
  with all run assms(4) show ?thesis
    by (simp add: maxRetries_def)
qed

theorem init_gives_up_after_maxRetries_witness:
  "\<exists>m'. init node_config unreachable fresh = (Rejected (NetworkError ''down''), m')
       \<and> nAuth m' = 4 \<and> nLink m' = 0
       \<and> filter is_onError (trace m') =
            [OnError InitFailed (NetworkError ''down'') (getStatus node_config m')]
       \<and> st_retryCount (getStatus node_config m') = 3"
proof -
  have h1: "\<And>n. auth_check (auth_reply unreachable n) = Inl (NetworkError ''down'')"
    by (simp add: unreachable_def)
  have h2: "\<not> isLoading fresh"
    and h3: "\<not> (isInitialized fresh \<and> truthy (accessToken fresh))"
    and h4: "retryCount fresh = 0"
    and h5: "has_onError node_config"
    by (simp_all add: fresh_def node_config_def)
  from init_gives_up_after_maxRetries [OF h1 h2 h3 h4 h5]
  show ?thesis
    by (auto simp: fresh_def)
qed

lemma init_retry_step:
  assumes "auth_check (auth_reply b (nAuth m)) = Inl e"
    and "\<not> isLoading m" and "\<not> (isInitialized m \<and> truthy (accessToken m))"
    and "retryCount m < maxRetries"
  shows "init cfg b m = init cfg b (retried cfg m)"
proof -
  let ?m0 = "m\<lparr>isLoading := True\<rparr>"
  have tb: "try_block cfg b ?m0 = (Inl e, send_auth ?m0)"
    by (rule try_block_auth_fails) (simp add: assms(1))
  have nl: "isLoading m = False"
    and ng: "(isInitialized m \<and> truthy (accessToken m)) = False"
    using assms(2,3) by simp_all
  have ic: "init_catch cfg e (send_auth ?m0) =
      (Inl (1000 * (retryCount m + 1)), (send_auth ?m0)\<lparr>isLoading := False, retryCount := retryCount m + 1\<rparr>)"
    using assms(4) by (simp add: init_catch_def Let_def send_auth_def emit_def)
  show ?thesis
    unfolding retried_def by (subst init.simps) (simp add: nl ng tb ic)
qed

lemma init_success_step:
  assumes "auth_check (auth_reply b (nAuth m)) = Inr (tok, expiresIn)"
    and "link_check (link_reply b (nLink m)) = Inr url"
    and "\<not> isLoading m" and "\<not> (isInitialized m \<and> truthy (accessToken m))"
  shows "init cfg b m =
      (Resolved (Some \<lparr>r_accessToken = tok, r_embedUrl = url, r_environment = cfg_environment cfg\<rparr>),
       completed cfg tok expiresIn url m)"
proof -
  let ?m0 = "m\<lparr>isLoading := True\<rparr>"
  let ?m1 = "scheduleTokenRefresh cfg expiresIn ((send_auth ?m0)\<lparr>accessToken := tok\<rparr>)"
  have tt: "truthy tok"
    using assms(1) by (rule auth_check_truthy)
  have a: "authenticate cfg b ?m0 = (None, ?m1)"
    using assms(1) by (simp add: authenticate_def auth_received_def send_auth_def emit_def)
  have f1: "accessToken ?m1 = tok" "nLink ?m1 = nLink m"
    by (simp_all add: scheduleTokenRefresh_fields send_auth_def emit_def)
  let ?m2 = "(emit (HttpLink tok) (?m1\<lparr>nLink := nLink m + 1\<rparr>))\<lparr>embedUrl := url\<rparr>"
  have g: "generateEmbedLink b ?m1 = (None, ?m2)"
    using assms(2) tt by (simp add: generateEmbedLink_def send_link_def link_received_def f1)
  have f2: "accessToken ?m2 = tok" "embedUrl ?m2 = url"
    by (simp_all add: emit_def f1)
  have tb: "try_block cfg b ?m0 =
      (Inr \<lparr>r_accessToken = tok, r_embedUrl = url, r_environment = cfg_environment cfg\<rparr>,
       snd (init_success cfg ?m2))"
    by (simp add: try_block_def a g init_success_def Let_def triggerCallback_def emit_def f1 f2)
  have nl: "isLoading m = False"
    and ng: "(isInitialized m \<and> truthy (accessToken m)) = False"
    using assms(3,4) by simp_all
  show ?thesis
    unfolding completed_def by (subst init.simps) (simp add: nl ng tb)
qed

lemma retried_fields:
  "nAuth (retried cfg m) = nAuth m + 1"
  "nLink (retried cfg m) = nLink m"
  "retryCount (retried cfg m) = retryCount m + 1"
  "isLoading (retried cfg m) = False"
  "isInitialized (retried cfg m) = isInitialized m"
  "accessToken (retried cfg m) = accessToken m"
  "embedUrl (retried cfg m) = embedUrl m"
  "refreshTimeout (retried cfg m) = refreshTimeout m"
  by (simp_all add: retried_def delay_def emit_def send_auth_def)

lemma retried_steps:
  "hasTimers cfg \<Longrightarrow> filter is_step (trace (retried cfg m)) =
     filter is_step (trace m) @ [HttpAuth, Waited (1000 * (retryCount m + 1))]"
  by (simp add: retried_def delay_def emit_def send_auth_def)

lemma completed_fields:
  "nAuth (completed cfg tok x url m) = nAuth m + 1"
  "nLink (completed cfg tok x url m) = nLink m + 1"
  "retryCount (completed cfg tok x url m) = 0"
  "isLoading (completed cfg tok x url m) = False"
  "isInitialized (completed cfg tok x url m) = True"
  "accessToken (completed cfg tok x url m) = tok"
  "embedUrl (completed cfg tok x url m) = url"
  "filter is_step (trace (completed cfg tok x url m)) = filter is_step (trace m) @ [HttpAuth, HttpLink tok]"
  by (simp_all add: completed_def init_success_def triggerCallback_def scheduleTokenRefresh_def
      Let_def emit_def send_auth_def)

text \<open>
  C2. When the first two authentications fail and the third succeeds, followed by a link
  generation that succeeds, \<open>init\<close> (retry counter 0, timers available) resolves with the
  new token and URL after three attempts: each retry starts again with the authentication
  request, the waits are 1000 ms and then 2000 ms, and the link is requested once.
\<close>

theorem init_succeeds_on_third_attempt:
  assumes "auth_check (auth_reply b (nAuth m)) = Inl e0"
    and "auth_check (auth_reply b (nAuth m + 1)) = Inl e1"
    and "auth_check (auth_reply b (nAuth m + 2)) = Inr (tok, expiresIn)"
    and "link_check (link_reply b (nLink m)) = Inr url"
    and "\<not> isLoading m" and "\<not> (isInitialized m \<and> truthy (accessToken m))"
    and "retryCount m = 0" and "hasTimers cfg"
  shows "\<exists>m'. init cfg b m =
           (Resolved (Some \<lparr>r_accessToken = tok, r_embedUrl = url,
                             r_environment = cfg_environment cfg\<rparr>), m')
       \<and> filter is_step (trace m') = filter is_step (trace m) @
           [HttpAuth, Waited 1000, HttpAuth, Waited 2000, HttpAuth, HttpLink tok]
       \<and> nAuth m' = nAuth m + 3 \<and> nLink m' = nLink m + 1
       \<and> isInitialized m' \<and> \<not> isLoading m' \<and> retryCount m' = 0
       \<and> getAccessToken m' = Inr tok \<and> getEmbedUrl m' = Inr url"
proof -
  let ?m1 = "retried cfg m"
  let ?m2 = "retried cfg ?m1"
  let ?m3 = "completed cfg tok expiresIn url ?m2"
  have s1: "init cfg b m = init cfg b ?m1"
    using assms(1,5,6,7) by (intro init_retry_step) (simp_all add: maxRetries_def)
  have s2: "init cfg b ?m1 = init cfg b ?m2"
    using assms(2,6,7) by (intro init_retry_step) (simp_all add: retried_fields maxRetries_def)
  have s3: "init cfg b ?m2 =
      (Resolved (Some \<lparr>r_accessToken = tok, r_embedUrl = url,
                        r_environment = cfg_environment cfg\<rparr>), ?m3)"
    using assms(3,4,6) by (intro init_success_step) (simp_all add: retried_fields)
  have tr: "filter is_step (trace ?m3) = filter is_step (trace m) @
           [HttpAuth, Waited 1000, HttpAuth, Waited 2000, HttpAuth, HttpLink tok]"
    using assms(7,8) by (simp add: completed_fields retried_steps retried_fields)
  show ?thesis
    using s1 s2 s3 tr
    by (simp add: completed_fields retried_fields getAccessToken_def getEmbedUrl_def)
qed

theorem init_succeeds_on_third_attempt_witness:
  "\<exists>m'. init node_config flaky fresh =
           (Resolved (Some \<lparr>r_accessToken = Some ''T'', r_embedUrl = Some ''U'',
                             r_environment = Node\<rparr>), m')
       \<and> filter is_step (trace m') =
           [HttpAuth, Waited 1000, HttpAuth, Waited 2000, HttpAuth, HttpLink (Some ''T'')]
       \<and> nAuth m' = 3 \<and> nLink m' = 1 \<and> isInitialized m' \<and> retryCount m' = 0"
proof -
  have h1: "auth_check (auth_reply flaky (nAuth fresh)) = Inl (NetworkError ''down'')"
    and h2: "auth_check (auth_reply flaky (nAuth fresh + 1)) = Inl (NetworkError ''down'')"
    and h3: "auth_check (auth_reply flaky (nAuth fresh + 2)) = Inr (Some ''T'', Finite 1800)"
    and h4: "link_check (link_reply flaky (nLink fresh)) = Inr (Some ''U'')"
    by (simp_all add: flaky_def fresh_def token_reply_def url_reply_def example_numbers)
  have h5: "\<not> isLoading fresh"
    and h6: "\<not> (isInitialized fresh \<and> truthy (accessToken fresh))"
    and h7: "retryCount fresh = 0"
    and h8: "hasTimers node_config"
    by (simp_all add: fresh_def node_config_def)
  from init_succeeds_on_third_attempt [OF h1 h2 h3 h4 h5 h6 h7 h8]
  show ?thesis
    by (auto simp: fresh_def node_config_def)
qed

section \<open>Re-entry of \<open>init\<close>\<close>

text \<open>
  C7. \<open>init\<close> called while the manager is loading, or while it is ready (initialized
  with a token), resolves at once with \<open>undefined\<close> and leaves every field as it was:
  no request is sent and nothing is recorded. The call does not wait either: its promise
  is settled when the call returns.
\<close>

theorem init_reentry_is_noop:
  assumes "isLoading m \<or> (isInitialized m \<and> truthy (accessToken m))"
  shows "init cfg b m = (Resolved None, m) \<and> enter_init m = (Settled (Resolved None), m)"
  using assms by (subst init.simps) (auto simp: enter_init_def)

theorem init_reentry_is_noop_witness:
  "init node_config flaky (fresh\<lparr>isLoading := True\<rparr>) = (Resolved None, fresh\<lparr>isLoading := True\<rparr>)
   \<and> init node_config flaky ready_T = (Resolved None, ready_T)"
  using init_reentry_is_noop [of "fresh\<lparr>isLoading := True\<rparr>" node_config flaky]
    init_reentry_is_noop [of ready_T node_config flaky]
  by (simp add: ready_T_def)

section \<open>\<open>refresh\<close>\<close>

lemma try_block_result:
  assumes "try_block cfg b m = (x, m')"
  shows "nAuth m' = nAuth m + 1 \<and>
    (case x of
       Inl e \<Rightarrow> isInitialized m' = isInitialized m \<and> retryCount m' = retryCount m
     | Inr r \<Rightarrow> (\<exists>expiresIn. auth_check (auth_reply b (nAuth m)) = Inr (accessToken m', expiresIn))
          \<and> link_check (link_reply b (nLink m)) = Inr (embedUrl m')
          \<and> isInitialized m' \<and> \<not> isLoading m' \<and> retryCount m' = 0
          \<and> r_accessToken r = accessToken m' \<and> r_embedUrl r = embedUrl m')"
  using assms
  by (auto simp: try_block_def authenticate_def generateEmbedLink_def auth_received_def
        link_received_def send_auth_def send_link_def scheduleTokenRefresh_fields emit_def
        init_success_def triggerCallback_def Let_def
        split: prod.splits option.splits sum.splits if_splits)

lemma init_resolved:
  assumes "init cfg b m = (Resolved (Some r), m')"
  shows "nAuth m < nAuth m'
       \<and> (\<exists>expiresIn. auth_check (auth_reply b (nAuth m' - 1)) = Inr (accessToken m', expiresIn))
       \<and> isInitialized m' \<and> \<not> isLoading m' \<and> retryCount m' = 0
       \<and> r_accessToken r = accessToken m' \<and> r_embedUrl r = embedUrl m'"
  using assms
proof (induction cfg b m arbitrary: r m' rule: init.induct)
  case (1 cfg b m)
  have nl: "isLoading m = False"
    and ng: "(isInitialized m \<and> truthy (accessToken m)) = False"
    using "1.prems" by (subst (asm) init.simps, simp split: if_splits)+
  obtain x m1 where tb: "try_block cfg b (m\<lparr>isLoading := True\<rparr>) = (x, m1)"
    by (cases "try_block cfg b (m\<lparr>isLoading := True\<rparr>)")
  note res = try_block_result [OF tb]
  show ?case
  proof (cases x)
    case (Inr r1)
    with "1.prems" tb have "r = r1" "m' = m1"
      by (subst (asm) init.simps, simp add: nl ng)+
    with res Inr show ?thesis by simp
  next
    case (Inl e)
    obtain y m2 where ic: "init_catch cfg e m1 = (y, m2)"
      by (cases "init_catch cfg e m1")
    show ?thesis
    proof (cases y)
      case (Inr e')
      with "1.prems" tb Inl ic show ?thesis
        by (subst (asm) init.simps) (simp add: nl ng)
    next
      case (Inl ms)
      have n2: "nAuth m2 = nAuth m1"
        using ic by (auto simp: init_catch_def Let_def handleError_def triggerCallback_def emit_def split: if_splits)
      from "1.prems" tb \<open>x = Inl e\<close> ic Inl
      have rec: "init cfg b (delay cfg ms m2) = (Resolved (Some r), m')"
        by (subst (asm) init.simps) (simp add: nl ng)
      have ih: "nAuth (delay cfg ms m2) < nAuth m'
       \<and> (\<exists>expiresIn. auth_check (auth_reply b (nAuth m' - 1)) = Inr (accessToken m', expiresIn))
       \<and> isInitialized m' \<and> \<not> isLoading m' \<and> retryCount m' = 0
       \<and> r_accessToken r = accessToken m' \<and> r_embedUrl r = embedUrl m'"
        using nl ng by (intro "1.IH" [OF _ _ tb [symmetric] \<open>x = Inl e\<close> ic [symmetric] Inl rec]) simp_all
      have "nAuth (delay cfg ms m2) = nAuth m + 1"
        using res n2 by (simp add: delay_def emit_def)
      with ih show ?thesis by simp
    qed
  qed
qed

lemma init_catch_retry:
  assumes "init_catch cfg e m = (Inl ms, m')"
  shows "\<not> isLoading m' \<and> isInitialized m' = isInitialized m \<and> nAuth m' = nAuth m
       \<and> retryCount m' = retryCount m + 1 \<and> ms = 1000 * retryCount m'"
  using assms by (auto simp: init_catch_def Let_def split: if_splits)

lemma init_resolved_undefined:
  assumes "init cfg b m = (Resolved None, m')" and "\<not> isInitialized m"
  shows "m' = m \<and> isLoading m"
  using assms
proof (induction cfg b m arbitrary: m' rule: init.induct)
  case (1 cfg b m)
  have ng: "(isInitialized m \<and> truthy (accessToken m)) = False"
    using "1.prems"(2) by simp
  show ?case
  proof (cases "isLoading m")
    case True
    with "1.prems" show ?thesis
      by (subst (asm) init.simps) simp
  next
    case False
    then have nl: "isLoading m = False"
      by simp
    obtain x m1 where tb: "try_block cfg b (m\<lparr>isLoading := True\<rparr>) = (x, m1)"
      by (cases "try_block cfg b (m\<lparr>isLoading := True\<rparr>)")
    note res = try_block_result [OF tb]
    show ?thesis
    proof (cases x)
      case (Inr r1)
      with "1.prems"(1) tb show ?thesis
        by (subst (asm) init.simps) (simp add: nl ng)
    next
      case (Inl e)
      obtain y m2 where ic: "init_catch cfg e m1 = (y, m2)"
        by (cases "init_catch cfg e m1")
      show ?thesis
      proof (cases y)
        case (Inr e')
        with "1.prems"(1) tb Inl ic show ?thesis
          by (subst (asm) init.simps) (simp add: nl ng)
      next
        case (Inl ms)
        note c = init_catch_retry [OF ic [unfolded Inl]]
        from "1.prems"(1) tb \<open>x = Inl e\<close> ic Inl
        have rec: "init cfg b (delay cfg ms m2) = (Resolved None, m')"
          by (subst (asm) init.simps) (simp add: nl ng)
        have ni: "\<not> isInitialized (delay cfg ms m2)"
          using res c "1.prems"(2) \<open>x = Inl e\<close> by (simp add: delay_def emit_def)
        have "m' = delay cfg ms m2 \<and> isLoading (delay cfg ms m2)"
          using nl ng by (intro "1.IH" [OF _ _ tb [symmetric] \<open>x = Inl e\<close> ic [symmetric] Inl rec ni]) simp_all
        with c show ?thesis
          by (auto simp: delay_def emit_def split: if_splits)
      qed
    qed
  qed
qed

lemma refresh_clear_overwrites:
  "refresh_clear (m\<lparr>accessToken := t, embedUrl := u\<rparr>) = refresh_clear m"
  by (simp add: refresh_clear_def)

lemma ready_T_reached:
  "init node_config rotating fresh =
     (Resolved (Some \<lparr>r_accessToken = Some ''T'', r_embedUrl = Some ''U'',
                       r_environment = Node\<rparr>), ready_T)"
proof -
  have "init node_config rotating fresh =
      (Resolved (Some \<lparr>r_accessToken = Some ''T'', r_embedUrl = Some ''U'',
                        r_environment = cfg_environment node_config\<rparr>),
       completed node_config (Some ''T'') (Finite 1800) (Some ''U'') fresh)"
    by (rule init_success_step) (simp_all add: rotating_def example_defs)
  then show ?thesis
    by (simp add: completed_def method_defs example_defs example_numbers ready_T_def)
qed

text \<open>
  \<open>refresh\<close> with nothing running in between is \<open>init\<close> on the manager with
  \<open>isInitialized\<close>, the token, the URL and the retry counter cleared, so its result does not
  depend on the token and URL held before. When it resolves with a result, the token held
  is the one of the reply to the last authentication request, a request sent during this
  \<open>refresh\<close>; when it resolves with \<open>undefined\<close>, an \<open>init\<close> was loading.
\<close>

lemma refresh_alone:
  assumes "refresh cfg b m = (Resolved x, m')"
  shows "refresh cfg b (m\<lparr>accessToken := t, embedUrl := u\<rparr>) = refresh cfg b m
       \<and> (case x of
            None \<Rightarrow> isLoading m \<and> getAccessToken m' = Inl NotInitialized
          | Some r \<Rightarrow>
              nAuth m < nAuth m'
              \<and> (\<exists>expiresIn. auth_check (auth_reply b (nAuth m' - 1)) = Inr (accessToken m', expiresIn))
              \<and> getAccessToken m' = Inr (accessToken m')
              \<and> r_accessToken r = accessToken m')"
proof -
  have b: "refresh cfg b (m\<lparr>accessToken := t, embedUrl := u\<rparr>) = refresh cfg b m"
    by (simp add: refresh_def refresh_clear_overwrites)
  have c: "(case x of
            None \<Rightarrow> isLoading m \<and> getAccessToken m' = Inl NotInitialized
          | Some r \<Rightarrow>
              nAuth m < nAuth m'
              \<and> (\<exists>expiresIn. auth_check (auth_reply b (nAuth m' - 1)) = Inr (accessToken m', expiresIn))
              \<and> getAccessToken m' = Inr (accessToken m')
              \<and> r_accessToken r = accessToken m')"
  proof (cases x)
    case None
    with assms have "init cfg b (refresh_clear m) = (Resolved None, m')"
      by (simp add: refresh_def)
    then have "m' = refresh_clear m \<and> isLoading (refresh_clear m)"
      by (rule init_resolved_undefined) (simp add: refresh_clear_def)
    with None show ?thesis
      by (simp add: refresh_clear_def getAccessToken_def)
  next
    case (Some r)
    with assms have "init cfg b (refresh_clear m) = (Resolved (Some r), m')"
      by (simp add: refresh_def)
    from init_resolved [OF this] Some show ?thesis
      by (simp add: refresh_clear_def getAccessToken_def)
  qed
  from b c show ?thesis by blast
qed

section \<open>The refresh timer\<close>




text \<open>
  C5, as the claim states it, fails: when authentication works and link generation never
  does, \<open>init\<close> rejects and the manager is never initialized, yet the timer has been set
  in each of the four attempts and is pending at the end.
\<close>

theorem timer_pending_without_ready_counterexample:
  "fst (init node_config no_links fresh) = Rejected (NetworkError ''down'')
   \<and> \<not> isInitialized (snd (init node_config no_links fresh))
   \<and> embedUrl (snd (init node_config no_links fresh)) = None
   \<and> refreshTimeout (snd (init node_config no_links fresh)) = Some (Finite 1740000)
   \<and> timerPending (snd (init node_config no_links fresh))
   \<and> count_list (trace (snd (init node_config no_links fresh))) (TimerSet (Finite 1740000)) = 4"
  by (simp add: init.simps method_defs example_numbers fresh_def node_config_def no_links_def
      token_reply_def maxRetries_def)

text \<open>
  C5, amended. In an attempt of \<open>init\<close> (the \<open>try\<close> block, with the \<open>catch\<close> block when a
  step fails) the timer is set by the authentication step as soon as it succeeds: before
  the link request is sent, and whether or not link generation succeeds; when
  authentication fails no timer is set. The attempt succeeds exactly when both steps do,
  and only then are the retry counter set to 0 and the manager marked initialized. A
  failed attempt leaves \<open>isInitialized\<close> as it was; it adds 1 to the retry counter and
  waits for the retry when the counter is below \<open>maxRetries\<close>, and leaves the counter as
  it is and rejects otherwise.
\<close>

theorem timer_scheduled_by_authentication:
  assumes "hasTimers cfg" and "attempt_end cfg b m = (p, m')"
  shows "(let both = (\<not> isl (auth_check (auth_reply b (nAuth m)))
                      \<and> \<not> isl (link_check (link_reply b (nLink m))));
              ending = (case p of
                          Settled (Resolved x) \<Rightarrow>
                            if has_onSuccess cfg then [OnSuccess (accessToken m') (embedUrl m')]
                            else []
                        | Settled (Rejected e) \<Rightarrow>
                            if has_onError cfg then [OnError InitFailed e (getStatus cfg m')]
                            else []
                        | Sleeping ms \<Rightarrow> [Waited ms]
                        | _ \<Rightarrow> [])
          in (case auth_check (auth_reply b (nAuth m)) of
                Inl e \<Rightarrow>
                  refreshTimeout m' = refreshTimeout m \<and> timerPending m' = timerPending m
                  \<and> trace m' = trace m @ [HttpAuth] @ ending
              | Inr (tok, expiresIn) \<Rightarrow>
                  refreshTimeout m' = Some (refreshTime expiresIn) \<and> timerPending m'
                  \<and> trace m' = trace m @ [HttpAuth]
                      @ (if refreshTimeout m \<noteq> None then [TimerCleared] else [])
                      @ [TimerSet (refreshTime expiresIn), HttpLink tok] @ ending)
             \<and> ((\<exists>x. p = Settled (Resolved x)) \<longleftrightarrow> both)
             \<and> retryCount m' =
                 (if both then 0
                  else if retryCount m < maxRetries then retryCount m + 1 else retryCount m)
             \<and> isInitialized m' = (if both then True else isInitialized m)
             \<and> (\<not> both \<longrightarrow>
                  p = (if retryCount m < maxRetries then Sleeping (1000 * (retryCount m + 1))
                       else Settled (Rejected
                         (case auth_check (auth_reply b (nAuth m)) of
                            Inl e \<Rightarrow> e
                          | Inr x \<Rightarrow> projl (link_check (link_reply b (nLink m))))))))"
proof (cases "auth_check (auth_reply b (nAuth m))")
  case (Inl e)
  then show ?thesis
    using assms
    by (auto simp: attempt_end_def method_defs split: if_splits)
next
  case (Inr te)
  obtain tok expiresIn where te: "te = (tok, expiresIn)"
    by (cases te)
  have tt: "truthy tok"
    using Inr te by (auto intro: auth_check_truthy)
  show ?thesis
  proof (cases "link_check (link_reply b (nLink m))")
    case Inl2: (Inl e)
    then show ?thesis
      using assms Inr te tt
      by (auto simp: attempt_end_def method_defs split: if_splits)
  next
    case Inr2: (Inr url)
    then show ?thesis
      using assms Inr te tt
      by (auto simp: attempt_end_def method_defs split: if_splits)
  qed
qed

theorem timer_scheduled_by_authentication_witness:
  "attempt_end node_config no_links (fresh\<lparr>isLoading := True\<rparr>) =
     (Sleeping 1000,
      fresh\<lparr>accessToken := Some ''T'', retryCount := 1, refreshTimeout := Some (Finite 1740000),
            timerPending := True, nAuth := 1, nLink := 1,
            trace := [HttpAuth, TimerSet (Finite 1740000), HttpLink (Some ''T''), Waited 1000]\<rparr>)"
proof -
  let ?m = "fresh\<lparr>isLoading := True\<rparr>"
  have h: "hasTimers node_config"
    by (simp add: node_config_def)
  obtain p m' where t: "attempt_end node_config no_links ?m = (p, m')"
    by (cases "attempt_end node_config no_links ?m")
  have a: "auth_check (auth_reply no_links (nAuth ?m)) = Inr (Some ''T'', Finite 1800)"
    and l: "link_check (link_reply no_links (nLink ?m)) = Inl (NetworkError ''down'')"
    by (simp_all add: no_links_def token_reply_def)
  have f: "accessToken m' = Some ''T'' \<and> embedUrl m' = None \<and> \<not> isLoading m'
         \<and> nAuth m' = 1 \<and> nLink m' = 1"
    using t by (auto simp: attempt_end_def method_defs no_links_def token_reply_def fresh_def
        node_config_def maxRetries_def split: if_splits)
  from timer_scheduled_by_authentication [OF h t] a l f show ?thesis
    unfolding t
    by (cases m') (simp add: Let_def fresh_def maxRetries_def example_numbers)
qed

section \<open>\<open>destroy\<close>\<close>

lemma destroy_fields:
  "accessToken (destroy cfg m) = None"
  "embedUrl (destroy cfg m) = None"
  "\<not> isInitialized (destroy cfg m)"
  "\<not> isLoading (destroy cfg m)"
  "hasTimers cfg \<Longrightarrow> refreshTimeout (destroy cfg m) = None"
  "retryCount (destroy cfg m) = retryCount m"
  by (simp_all add: destroy_def Let_def emit_def)

lemma destroy_idempotent: "destroy cfg (destroy cfg m) = destroy cfg m"
  by (simp add: destroy_def Let_def emit_def)

text \<open>
  C9. \<open>destroy\<close> clears the token, the URL, \<open>isInitialized\<close> and \<open>isLoading\<close>, cancels the
  pending timer and is idempotent (\<open>destroy_fields\<close>, \<open>destroy_idempotent\<close>), but it
  leaves the retry counter as it is: after an \<open>init\<close> that gave up the counter is 3 and
  stays 3 through \<open>destroy\<close>, where the constructor has 0, and the next \<open>init\<close> makes a
  single attempt.
\<close>

theorem destroy_keeps_retryCount:
  "retryCount (snd (init node_config unreachable fresh)) = 3
   \<and> retryCount (destroy node_config (snd (init node_config unreachable fresh))) = 3
   \<and> retryCount fresh = 0
   \<and> nAuth (snd (init node_config unreachable fresh)) = 4
   \<and> nAuth (snd (init node_config unreachable
        (destroy node_config (snd (init node_config unreachable fresh))))) = 5"
  by code_simp

section \<open>Interleaved tasks: one attempt at a time\<close>

lemma count_update:
  "i < length xs \<Longrightarrow>
     length (filter P (xs[i := y])) + (if P (xs ! i) then 1 else 0) =
     length (filter P xs) + (if P y then 1 else 0)"
proof (induction xs arbitrary: i)
  case Nil
  then show ?case by simp
next
  case (Cons x xs)
  show ?case
  proof (cases i)
    case 0
    then show ?thesis by simp
  next
    case (Suc j)
    with Cons.prems have "j < length xs" by simp
    from Cons.IH [OF this] Suc show ?thesis by simp
  qed
qed

lemma in_flight_spawn:
  "in_flight (spawn c pm s) = in_flight s + (if attempting (fst pm) then 1 else 0)"
  by (simp add: in_flight_def spawn_def)

lemma in_flight_advance:
  assumes "i < length (tasks s)"
  shows "in_flight (advance i pm s) + (if attempting (snd (tasks s ! i)) then 1 else 0) =
         in_flight s + (if attempting (fst pm) then 1 else 0)"
  using count_update [OF assms, of "\<lambda>t. attempting (snd t)" "(fst (tasks s ! i), fst pm)"]
  by (simp add: in_flight_def advance_def)

lemma mgr_spawn: "mgr (spawn c pm s) = snd pm"
  by (simp add: spawn_def)

lemma mgr_advance: "mgr (advance i pm s) = snd pm"
  by (simp add: advance_def)

lemma enter_init_loading:
  "attempting (fst (enter_init m)) = (\<not> isLoading m \<and> isLoading (snd (enter_init m)))"
  "\<not> attempting (fst (enter_init m)) \<Longrightarrow> snd (enter_init m) = m"
  "isLoading m \<Longrightarrow> isLoading (snd (enter_init m))"
  by (auto simp: enter_init_def send_auth_def emit_def)

lemma balanced_spawn_init:
  assumes "in_flight s = (if isLoading m then 1 else 0)"
  shows "balanced (spawn c (enter_init m) s)"
  using assms enter_init_loading [of m]
  by (cases "attempting (fst (enter_init m))") (auto simp: balanced_def in_flight_spawn mgr_spawn split: if_splits)

lemma balanced_spawn_other:
  assumes "balanced s" and "\<not> attempting (fst pm)" and "isLoading (snd pm) = isLoading (mgr s)"
  shows "balanced (spawn c pm s)"
  using assms by (simp add: balanced_def in_flight_spawn mgr_spawn)

lemma attempting_positive:
  assumes "i < length (tasks s)" and "attempting (snd (tasks s ! i))"
  shows "0 < in_flight s"
proof -
  from assms have "tasks s ! i \<in> set (filter (\<lambda>t. attempting (snd t)) (tasks s))"
    by simp
  then show ?thesis
    unfolding in_flight_def by (metis length_pos_if_in_set)
qed

lemma triggerCallback_fields:
  "isLoading (triggerCallback cfg ev m) = isLoading m"
  "accessToken (triggerCallback cfg ev m) = accessToken m"
  "embedUrl (triggerCallback cfg ev m) = embedUrl m"
  "isInitialized (triggerCallback cfg ev m) = isInitialized m"
  "retryCount (triggerCallback cfg ev m) = retryCount m"
  "refreshTimeout (triggerCallback cfg ev m) = refreshTimeout m"
  by (simp_all add: triggerCallback_def emit_def)

lemma handleError_fields:
  "isLoading (handleError cfg ctx e m) = isLoading m"
  "accessToken (handleError cfg ctx e m) = accessToken m"
  "embedUrl (handleError cfg ctx e m) = embedUrl m"
  "isInitialized (handleError cfg ctx e m) = isInitialized m"
  "retryCount (handleError cfg ctx e m) = retryCount m"
  "refreshTimeout (handleError cfg ctx e m) = refreshTimeout m"
  by (simp_all add: handleError_def triggerCallback_fields)

lemma render_switch_fields:
  "isLoading (snd (render_switch cfg mo c m)) = isLoading m"
  "accessToken (snd (render_switch cfg mo c m)) = accessToken m"
  "embedUrl (snd (render_switch cfg mo c m)) = embedUrl m"
  "isInitialized (snd (render_switch cfg mo c m)) = isInitialized m"
  by (auto simp: render_switch_def wrap_def iframe_branch_def renderWebView_def
      returnApiData_def Let_def triggerCallback_fields
      split: mode.splits environment.splits sum.splits option.splits)

lemma enter_switch_fields:
  "\<not> attempting (fst (enter_switch cfg mo c m))"
  "isLoading (snd (enter_switch cfg mo c m)) = isLoading m"
  "accessToken (snd (enter_switch cfg mo c m)) = accessToken m"
  "embedUrl (snd (enter_switch cfg mo c m)) = embedUrl m"
  "isInitialized (snd (enter_switch cfg mo c m)) = isInitialized m"
  using render_switch_fields [of cfg mo c m]
  by (auto simp: enter_switch_def split: prod.splits sum.splits)

lemma continue_fields:
  "\<not> attempting (fst (continue cfg c out m))"
  "isLoading (snd (continue cfg c out m)) = isLoading m"
  "accessToken (snd (continue cfg c out m)) = accessToken m"
  "embedUrl (snd (continue cfg c out m)) = embedUrl m"
  "isInitialized (snd (continue cfg c out m)) = isInitialized m"
  by (cases c; cases out; simp add: enter_switch_fields triggerCallback_fields handleError_fields)+

lemma resume_loading:
  "attempting (fst (resume cfg c p m)) \<Longrightarrow> attempting p"
  "isLoading (snd (resume cfg c p m)) =
     (if attempting p \<and> \<not> attempting (fst (resume cfg c p m)) then False else isLoading m)"
  by (cases p;
      auto simp: send_link_def emit_def init_success_def init_catch_def delay_def Let_def
        triggerCallback_fields handleError_fields continue_fields
        split: prod.splits option.splits sum.splits if_splits)+

lemma auth_received_loading:
  "isLoading (snd (after_auth (auth_received cfg r m))) = isLoading m"
  "attempting (fst (after_auth (auth_received cfg r m)))"
  by (auto simp: auth_received_def scheduleTokenRefresh_fields split: sum.splits prod.splits)

lemma link_received_loading:
  "isLoading (snd (after_link (link_received r m))) = isLoading m"
  "attempting (fst (after_link (link_received r m)))"
  by (auto simp: link_received_def split: sum.splits prod.splits)

lemma renderIframe_end_fields:
  "isLoading (snd (renderIframe_end cfg src ld m)) = isLoading m"
  "accessToken (snd (renderIframe_end cfg src ld m)) = accessToken m"
  "embedUrl (snd (renderIframe_end cfg src ld m)) = embedUrl m"
  "isInitialized (snd (renderIframe_end cfg src ld m)) = isInitialized m"
  by (cases ld; simp add: triggerCallback_fields handleError_fields)+

lemma after_load_fields:
  "\<not> attempting (fst (after_load x))"
  "snd (after_load x) = snd x"
  by (cases x; simp)+

lemma balanced_advance:
  assumes "balanced s" and "i < length (tasks s)"
    and "attempting (fst pm) \<Longrightarrow> attempting (snd (tasks s ! i)) \<or> (\<not> isLoading (mgr s) \<and> isLoading (snd pm))"
    and "isLoading (snd pm) =
      (if attempting (snd (tasks s ! i)) \<and> \<not> attempting (fst pm) then False
       else if \<not> attempting (snd (tasks s ! i)) \<and> attempting (fst pm) then True
       else isLoading (mgr s))"
  shows "balanced (advance i pm s)"
  using assms in_flight_advance [OF assms(2), of pm] attempting_positive [OF assms(2)]
  by (auto simp: balanced_def mgr_advance split: if_splits)

lemma position_Some: "position s i = Some p \<Longrightarrow> i < length (tasks s) \<and> snd (tasks s ! i) = p"
  by (simp add: position_def split: if_splits)

lemma balanced_step:
  assumes "balanced s" and "a \<noteq> CallDestroy"
  shows "balanced (step cfg a s)"
proof (cases a)
  case CallInit
  have "balanced (spawn ByInit (enter_init (mgr s)) s)"
    using assms(1) by (intro balanced_spawn_init) (simp add: balanced_def)
  with CallInit show ?thesis by simp
next
  case CallRefresh
  have "balanced (spawn ByRefresh (enter_init (refresh_clear (mgr s))) s)"
    using assms(1) by (intro balanced_spawn_init) (simp add: balanced_def refresh_clear_def)
  with CallRefresh show ?thesis by simp
next
  case (CallRender mo c)
  have "balanced (spawn (ByRender mo c) (enter_init (mgr s)) s)"
    using assms(1) by (intro balanced_spawn_init) (simp add: balanced_def)
  moreover have "balanced (spawn (ByRender mo c) (enter_switch cfg mo c (mgr s)) s)"
    using assms(1) by (intro balanced_spawn_other) (simp_all add: enter_switch_fields)
  ultimately show ?thesis
    using CallRender by simp
next
  case CallDestroy
  with assms show ?thesis by simp
next
  case TimerFires
  have "balanced (spawn ByTimer (enter_init (refresh_clear ((mgr s)\<lparr>timerPending := False\<rparr>))) s)"
    using assms(1) by (intro balanced_spawn_init) (simp add: balanced_def refresh_clear_def)
  with TimerFires assms(1) show ?thesis
    by simp
next
  case (AuthReply i r)
  show ?thesis
  proof (cases "position s i = Some AwaitAuth")
    case True
    note t = position_Some [OF True]
    from assms(1) t have "balanced (advance i (after_auth (auth_received cfg r (mgr s))) s)"
      by (intro balanced_advance) (simp_all add: auth_received_loading)
    with AuthReply True show ?thesis by simp
  next
    case False
    with AuthReply assms show ?thesis by simp
  qed
next
  case (LinkReply i r)
  show ?thesis
  proof (cases "position s i = Some AwaitLink")
    case True
    note t = position_Some [OF True]
    from assms(1) t have "balanced (advance i (after_link (link_received r (mgr s))) s)"
      by (intro balanced_advance) (simp_all add: link_received_loading)
    with LinkReply True show ?thesis by simp
  next
    case False
    with LinkReply assms show ?thesis by simp
  qed
next
  case (Resume i)
  show ?thesis
  proof (cases "i < length (tasks s)")
    case True
    let ?r = "resume cfg (fst (tasks s ! i)) (snd (tasks s ! i)) (mgr s)"
    from assms(1) True have "balanced (advance i ?r s)"
      using resume_loading [of cfg "fst (tasks s ! i)" "snd (tasks s ! i)" "mgr s"]
      by (intro balanced_advance) auto
    with Resume True show ?thesis by simp
  next
    case False
    with Resume assms show ?thesis by simp
  qed
next
  case (DelayElapsed i)
  show ?thesis
  proof (cases "position s i")
    case None
    with DelayElapsed assms show ?thesis by simp
  next
    case (Some p)
    note t = position_Some [OF Some]
    show ?thesis
    proof (cases p)
      case (Sleeping ms)
      from assms(1) t Sleeping have "balanced (advance i (enter_init (mgr s)) s)"
        using enter_init_loading [of "mgr s"]
        by (intro balanced_advance) auto
      with DelayElapsed Some Sleeping show ?thesis by simp
    qed (use DelayElapsed Some assms in simp_all)
  qed
next
  case (IframeLoad i ld)
  show ?thesis
  proof (cases "position s i")
    case None
    with IframeLoad assms show ?thesis by simp
  next
    case (Some p)
    note t = position_Some [OF Some]
    show ?thesis
    proof (cases p)
      case (AwaitLoad src)
      from assms(1) t AwaitLoad
      have "balanced (advance i (after_load (renderIframe_end cfg src ld (mgr s))) s)"
        by (intro balanced_advance) (simp_all add: renderIframe_end_fields after_load_fields)
      with IframeLoad Some AwaitLoad show ?thesis by simp
    qed (use IframeLoad Some assms in simp_all)
  qed
qed

lemma balanced_run:
  assumes "balanced s" and "CallDestroy \<notin> set acts"
  shows "balanced (run cfg acts s)"
  using assms
proof (induction acts arbitrary: s)
  case Nil
  then show ?case by simp
next
  case (Cons a acts)
  from Cons.prems have "balanced (step cfg a s)"
    by (intro balanced_step) auto
  with Cons show ?case by simp
qed

lemma balanced_boot: "balanced (boot cfg)"
proof -
  have "balanced \<lparr>mgr = fresh, tasks = []\<rparr>"
    by (simp add: balanced_def in_flight_def fresh_def)
  moreover have "balanced (spawn ByConstructor (enter_init fresh) \<lparr>mgr = fresh, tasks = []\<rparr>)"
    by (rule balanced_spawn_init) (simp add: in_flight_def fresh_def)
  ultimately show ?thesis
    by (simp add: boot_def Let_def)
qed

lemma on_wire_le: "on_wire s \<le> in_flight s"
proof -
  have "\<And>xs :: (caller \<times> pc) list.
      length (filter (\<lambda>t. on_network (snd t)) xs) \<le> length (filter (\<lambda>t. attempting (snd t)) xs)"
  proof -
    fix xs :: "(caller \<times> pc) list"
    show "length (filter (\<lambda>t. on_network (snd t)) xs) \<le> length (filter (\<lambda>t. attempting (snd t)) xs)"
    proof (induction xs)
      case Nil
      then show ?case by simp
    next
      case (Cons x xs)
      then show ?case by (cases "snd x") auto
    qed
  qed
  then show ?thesis
    by (simp add: on_wire_def in_flight_def)
qed

text \<open>
  C6. In every interleaving of calls of \<open>init\<close>, \<open>refresh\<close> and \<open>render\<close>, firings of the
  refresh timer, replies, resumptions and ends of back-off delays, at most one task is in
  an attempt of \<open>init\<close> (authentication followed by link generation), hence at most one
  request is awaited, and one is in flight exactly when \<open>isLoading\<close> is set. Tasks in
  their back-off delay are part of the interleaving.
\<close>

theorem one_attempt_in_flight:
  assumes "CallDestroy \<notin> set acts"
  shows "in_flight (run cfg acts (boot cfg)) \<le> 1
       \<and> on_wire (run cfg acts (boot cfg)) \<le> 1
       \<and> (in_flight (run cfg acts (boot cfg)) = 1 \<longleftrightarrow> isLoading (mgr (run cfg acts (boot cfg))))"
proof -
  have "balanced (run cfg acts (boot cfg))"
    using balanced_boot assms by (rule balanced_run)
  then show ?thesis
    using on_wire_le [of "run cfg acts (boot cfg)"]
    by (auto simp: balanced_def split: if_splits)
qed

theorem one_attempt_in_flight_witness:
  "CallDestroy \<notin> set [CallInit, AuthReply 0 (Failure ''down''), Resume 0, CallInit,
                        DelayElapsed 0, CallRefresh, TimerFires]
   \<and> in_flight (run node_config
        [CallInit, AuthReply 0 (Failure ''down''), Resume 0, CallInit,
         DelayElapsed 0, CallRefresh, TimerFires] (boot node_config)) = 1
   \<and> isLoading (mgr (run node_config
        [CallInit, AuthReply 0 (Failure ''down''), Resume 0, CallInit,
         DelayElapsed 0, CallRefresh, TimerFires] (boot node_config)))"
proof -
  have h: "CallDestroy \<notin> set [CallInit, AuthReply 0 (Failure ''down''), Resume 0, CallInit,
                        DelayElapsed 0, CallRefresh, TimerFires]"
    by simp
  have l: "isLoading (mgr (run node_config
        [CallInit, AuthReply 0 (Failure ''down''), Resume 0, CallInit,
         DelayElapsed 0, CallRefresh, TimerFires] (boot node_config)))"
    by code_simp
  from one_attempt_in_flight [OF h, of node_config] h l show ?thesis
    by simp
qed

text \<open>
  \<open>destroy\<close> is not among these actions: it clears \<open>isLoading\<close> while the attempt goes on,
  and the next \<open>init\<close> starts a second attempt beside it.
\<close>

lemma destroy_lets_attempts_overlap:
  "in_flight (run node_config [CallInit, CallDestroy, CallInit] (boot node_config)) = 2"
  by code_simp

section \<open>Interleaved tasks: the session invariant\<close>

text \<open>
  C3, as the claim states it, fails: \<open>destroy\<close> called while \<open>init\<close> awaits the link clears
  the token; the reply then stores the URL and \<open>init\<close> marks the manager initialized, with
  no token. \<open>getAccessToken\<close> then returns \<open>null\<close>.
\<close>

theorem session_broken_by_destroy_counterexample:
  "accessToken (mgr (run node_config
      [CallInit, AuthReply 0 (token_reply None), Resume 0, CallDestroy,
       LinkReply 0 url_reply, Resume 0] (boot node_config))) = None
   \<and> embedUrl (mgr (run node_config
      [CallInit, AuthReply 0 (token_reply None), Resume 0, CallDestroy,
       LinkReply 0 url_reply, Resume 0] (boot node_config))) = Some ''U''
   \<and> isInitialized (mgr (run node_config
      [CallInit, AuthReply 0 (token_reply None), Resume 0, CallDestroy,
       LinkReply 0 url_reply, Resume 0] (boot node_config)))
   \<and> getAccessToken (mgr (run node_config
      [CallInit, AuthReply 0 (token_reply None), Resume 0, CallDestroy,
       LinkReply 0 url_reply, Resume 0] (boot node_config))) = Inr None"
  by (simp add: task_defs method_defs example_defs example_numbers consistent_def getAccessToken_def)

text \<open>
  The same happens with \<open>refresh\<close> in the place of \<open>destroy\<close>, and with no second call at
  all when the token expires within 60 seconds: the timer is due at once and its callback
  runs \<open>refresh\<close> while the link is awaited.
\<close>

lemma session_broken_by_refresh:
  "\<not> consistent (mgr (run node_config
      [CallInit, AuthReply 0 (token_reply None), Resume 0, CallRefresh,
       LinkReply 0 url_reply, Resume 0] (boot node_config)))"
  by (simp add: task_defs method_defs example_defs example_numbers consistent_def getAccessToken_def)

lemma session_broken_by_timer:
  "\<not> consistent (mgr (run node_config
      [CallInit, AuthReply 0 (token_reply (Some 30)), Resume 0, TimerFires,
       LinkReply 0 url_reply, Resume 0] (boot node_config)))"
  by (simp add: task_defs method_defs example_defs example_numbers consistent_def getAccessToken_def)

lemma needs_keeps: "needs m p \<Longrightarrow> keeps m m' \<Longrightarrow> needs m' p"
  by (cases p) (auto simp: keeps_def)

lemma needs_quiet: "\<not> link_pending p \<Longrightarrow> needs m p"
  by (cases p) auto

lemma same_session:
  assumes "accessToken m' = accessToken m" and "embedUrl m' = embedUrl m"
    and "isInitialized m' = isInitialized m"
  shows "consistent m' = consistent m" and "keeps m m'"
  using assms by (simp_all add: consistent_def keeps_def)

lemma sound_spawn:
  assumes "sound s" and "keeps (mgr s) (snd pm)" and "consistent (snd pm)"
    and "needs (snd pm) (fst pm)"
  shows "sound (spawn c pm s)"
  using assms by (auto simp: sound_def spawn_def intro: needs_keeps)

lemma sound_spawn_quiet:
  assumes "quiet s" and "consistent (snd pm)" and "needs (snd pm) (fst pm)"
  shows "sound (spawn c pm s)"
  using assms by (auto simp: sound_def spawn_def quiet_def list_all_iff intro: needs_quiet)

lemma sound_advance:
  assumes "sound s" and "keeps (mgr s) (snd pm)" and "consistent (snd pm)"
    and "needs (snd pm) (fst pm)"
  shows "sound (advance i pm s)"
proof -
  have "set ((tasks s)[i := (fst (tasks s ! i), fst pm)]) \<subseteq>
      insert (fst (tasks s ! i), fst pm) (set (tasks s))"
    by (rule set_update_subset_insert)
  then have "\<forall>t \<in> set ((tasks s)[i := (fst (tasks s ! i), fst pm)]).
      t = (fst (tasks s ! i), fst pm) \<or> t \<in> set (tasks s)"
    by blast
  moreover have "\<forall>t \<in> set (tasks s). needs (snd pm) (snd t)"
    using assms(1,2) by (auto simp: sound_def intro: needs_keeps)
  ultimately have "\<forall>t \<in> set ((tasks s)[i := (fst (tasks s ! i), fst pm)]). needs (snd pm) (snd t)"
    using assms(4) by auto
  with assms(3) show ?thesis
    by (simp add: sound_def advance_def)
qed

lemma enter_init_fields:
  "accessToken (snd (enter_init m)) = accessToken m"
  "embedUrl (snd (enter_init m)) = embedUrl m"
  "isInitialized (snd (enter_init m)) = isInitialized m"
  "\<not> link_pending (fst (enter_init m))"
  by (simp_all add: enter_init_def send_auth_def emit_def)

lemma sound_enter_init:
  assumes "sound s"
  shows "sound (spawn c (enter_init (mgr s)) s)" and "sound (advance i (enter_init (mgr s)) s)"
proof -
  have k: "keeps (mgr s) (snd (enter_init (mgr s)))"
    and c: "consistent (snd (enter_init (mgr s)))"
    using assms same_session [of "snd (enter_init (mgr s))" "mgr s"]
    by (simp_all add: enter_init_fields sound_def)
  have n: "needs (snd (enter_init (mgr s))) (fst (enter_init (mgr s)))"
    by (rule needs_quiet) (rule enter_init_fields)
  show "sound (spawn c (enter_init (mgr s)) s)"
    using assms k c n by (rule sound_spawn)
  show "sound (advance i (enter_init (mgr s)) s)"
    using assms k c n by (rule sound_advance)
qed

lemma cleared_consistent:
  "consistent (refresh_clear m)" "consistent (destroy cfg m)"
  by (simp_all add: consistent_def refresh_clear_def destroy_def Let_def emit_def)

lemma sound_cleared_init:
  assumes "quiet s" and "consistent m"
  shows "sound (spawn c (enter_init m) s)"
proof (rule sound_spawn_quiet [OF assms(1)])
  show "consistent (snd (enter_init m))"
    using assms(2) same_session(1) [of "snd (enter_init m)" m] by (simp add: enter_init_fields)
  show "needs (snd (enter_init m)) (fst (enter_init m))"
    by (rule needs_quiet) (rule enter_init_fields)
qed

lemma truthy_Some: "truthy x \<Longrightarrow> x \<noteq> None"
  by (cases x) auto

lemma sound_auth_reply:
  assumes "sound s"
  shows "sound (advance i (after_auth (auth_received cfg r (mgr s))) s)"
proof (cases "auth_check r")
  case (Inl e)
  then have eq: "after_auth (auth_received cfg r (mgr s)) = (Thrown e, mgr s)"
    by (simp add: auth_received_def)
  show ?thesis
    unfolding eq using assms
    by (intro sound_advance) (simp_all add: sound_def keeps_def)
next
  case (Inr te)
  obtain tok expiresIn where te: "te = (tok, expiresIn)"
    by (cases te)
  let ?m = "scheduleTokenRefresh cfg expiresIn ((mgr s)\<lparr>accessToken := tok\<rparr>)"
  from Inr te have eq: "after_auth (auth_received cfg r (mgr s)) = (AuthReturned, ?m)"
    by (simp add: auth_received_def)
  have "truthy tok"
    using Inr te by (auto intro: auth_check_truthy)
  then have tok: "tok \<noteq> None"
    by (rule truthy_Some)
  show ?thesis
    unfolding eq using assms tok
    by (intro sound_advance)
      (auto simp: sound_def keeps_def consistent_def scheduleTokenRefresh_fields)
qed

lemma sound_link_reply:
  assumes "sound s" and "position s i = Some AwaitLink"
  shows "sound (advance i (after_link (link_received r (mgr s))) s)"
proof -
  from assms have tok: "accessToken (mgr s) \<noteq> None"
    using position_Some [OF assms(2)] by (auto simp: sound_def dest!: bspec [where x = "tasks s ! i"])
  show ?thesis
  proof (cases "link_check r")
    case (Inl e)
    then have eq: "after_link (link_received r (mgr s)) = (Thrown e, mgr s)"
      by (simp add: link_received_def)
    show ?thesis
      unfolding eq using assms(1)
      by (intro sound_advance) (simp_all add: sound_def keeps_def)
  next
    case (Inr url)
    then have eq: "after_link (link_received r (mgr s)) = (LinkReturned, (mgr s)\<lparr>embedUrl := url\<rparr>)"
      by (simp add: link_received_def)
    have "truthy url"
      using Inr by (rule link_check_truthy)
    then have url: "url \<noteq> None"
      by (rule truthy_Some)
    show ?thesis
      unfolding eq using assms(1) tok url
      by (intro sound_advance) (auto simp: sound_def keeps_def consistent_def)
  qed
qed

lemma sound_resume:
  assumes "sound s" and "i < length (tasks s)"
  shows "sound (advance i (resume cfg (fst (tasks s ! i)) (snd (tasks s ! i)) (mgr s)) s)"
proof -
  let ?c = "fst (tasks s ! i)" and ?p = "snd (tasks s ! i)" and ?m = "mgr s"
  from assms have nd: "needs ?m ?p" and co: "consistent ?m"
    by (auto simp: sound_def)
  show ?thesis
  proof (cases ?p)
    case AuthReturned
    show ?thesis
    proof (cases "truthy (accessToken ?m)")
      case True
      then have eq: "resume cfg ?c ?p ?m =
          (AwaitLink, emit (HttpLink (accessToken ?m)) (?m\<lparr>nLink := nLink ?m + 1\<rparr>))"
        using AuthReturned by (simp add: send_link_def)
      show ?thesis
        unfolding eq using assms(1) co truthy_Some [OF True]
        by (intro sound_advance) (simp_all add: keeps_def consistent_def emit_def)
    next
      case False
      then have eq: "resume cfg ?c ?p ?m = (Thrown TokenUnavailable, ?m)"
        using AuthReturned by (simp add: send_link_def)
      show ?thesis
        unfolding eq using assms(1) co
        by (intro sound_advance) (simp_all add: keeps_def)
    qed
  next
    case LinkReturned
    obtain r m1 where ok: "init_success cfg ?m = (r, m1)"
      by (cases "init_success cfg ?m")
    then have f: "accessToken m1 = accessToken ?m" "embedUrl m1 = embedUrl ?m"
      by (auto simp: init_success_def Let_def triggerCallback_fields)
    from ok LinkReturned have eq: "resume cfg ?c ?p ?m = (Settled (Resolved (Some r)), m1)"
      by simp
    show ?thesis
      unfolding eq using assms(1) nd LinkReturned f
      by (intro sound_advance) (simp_all add: keeps_def consistent_def)
  next
    case (Thrown e)
    obtain y m1 where ic: "init_catch cfg e ?m = (y, m1)"
      by (cases "init_catch cfg e ?m")
    then have f: "accessToken m1 = accessToken ?m" "embedUrl m1 = embedUrl ?m"
      "isInitialized m1 = isInitialized ?m"
      by (auto simp: init_catch_def Let_def handleError_fields split: if_splits)
    show ?thesis
    proof (cases y)
      case (Inl ms)
      with ic Thrown have eq: "resume cfg ?c ?p ?m = (Sleeping ms, delay cfg ms m1)"
        by simp
      have g: "accessToken (delay cfg ms m1) = accessToken ?m"
        "embedUrl (delay cfg ms m1) = embedUrl ?m"
        "isInitialized (delay cfg ms m1) = isInitialized ?m"
        using f by (simp_all add: delay_def emit_def)
      show ?thesis
        unfolding eq using assms(1) co same_session [OF g]
        by (intro sound_advance) simp_all
    next
      case (Inr e')
      with ic Thrown have eq: "resume cfg ?c ?p ?m = (Settled (Rejected e'), m1)"
        by simp
      show ?thesis
        unfolding eq using assms(1) co same_session [OF f]
        by (intro sound_advance) simp_all
    qed
  next
    case (Settled out)
    then have eq: "resume cfg ?c ?p ?m = continue cfg ?c out ?m"
      by simp
    have g: "accessToken (snd (continue cfg ?c out ?m)) = accessToken ?m"
      "embedUrl (snd (continue cfg ?c out ?m)) = embedUrl ?m"
      "isInitialized (snd (continue cfg ?c out ?m)) = isInitialized ?m"
      by (simp_all add: continue_fields)
    have n: "needs (snd (continue cfg ?c out ?m)) (fst (continue cfg ?c out ?m))"
      using continue_fields(1) [of cfg ?c out ?m]
      by (cases "fst (continue cfg ?c out ?m)") simp_all
    show ?thesis
      unfolding eq using assms(1) co same_session [OF g] n
      by (intro sound_advance) simp_all
  next
    case AwaitAuth
    then have eq: "resume cfg ?c ?p ?m = (?p, ?m)" by simp
    show ?thesis
      unfolding eq using assms(1) co nd by (intro sound_advance) (simp_all add: keeps_def)
  next
    case AwaitLink
    then have eq: "resume cfg ?c ?p ?m = (?p, ?m)" by simp
    show ?thesis
      unfolding eq using assms(1) co nd by (intro sound_advance) (simp_all add: keeps_def)
  next
    case (Sleeping ms)
    then have eq: "resume cfg ?c ?p ?m = (?p, ?m)" by simp
    show ?thesis
      unfolding eq using assms(1) co nd by (intro sound_advance) (simp_all add: keeps_def)
  next
    case (AwaitLoad src)
    then have eq: "resume cfg ?c ?p ?m = (?p, ?m)" by simp
    show ?thesis
      unfolding eq using assms(1) co nd by (intro sound_advance) (simp_all add: keeps_def)
  next
    case (Done res)
    then have eq: "resume cfg ?c ?p ?m = (?p, ?m)" by simp
    show ?thesis
      unfolding eq using assms(1) co nd by (intro sound_advance) (simp_all add: keeps_def)
  qed
qed

lemma sound_step:
  assumes "sound s" and "clears_token a \<longrightarrow> quiet s"
  shows "sound (step cfg a s)"
proof (cases a)
  case CallInit
  with assms(1) show ?thesis by (simp add: sound_enter_init)
next
  case CallRefresh
  with assms(2) have "quiet s" by simp
  then have "sound (spawn ByRefresh (enter_init (refresh_clear (mgr s))) s)"
    by (rule sound_cleared_init) (rule cleared_consistent)
  with CallRefresh show ?thesis by simp
next
  case (CallRender mo c)
  let ?pm = "enter_switch cfg mo c (mgr s)"
  have g: "accessToken (snd ?pm) = accessToken (mgr s)"
    "embedUrl (snd ?pm) = embedUrl (mgr s)"
    "isInitialized (snd ?pm) = isInitialized (mgr s)"
    by (simp_all add: enter_switch_fields)
  have n: "needs (snd ?pm) (fst ?pm)"
    using enter_switch_fields(1) [of cfg mo c "mgr s"] by (cases "fst ?pm") simp_all
  have "sound (spawn (ByRender mo c) ?pm s)"
    using assms(1) same_session [OF g] n by (intro sound_spawn) (simp_all add: sound_def)
  with CallRender assms(1) show ?thesis
    by (simp add: sound_enter_init)
next
  case CallDestroy
  with assms(2) have q: "quiet s" by simp
  have "sound (s\<lparr>mgr := destroy cfg (mgr s)\<rparr>)"
    using q cleared_consistent(2) [of cfg "mgr s"]
    by (auto simp: sound_def quiet_def list_all_iff intro: needs_quiet)
  with CallDestroy show ?thesis by simp
next
  case TimerFires
  with assms(2) have "quiet s" by simp
  then have "sound (spawn ByTimer (enter_init (refresh_clear ((mgr s)\<lparr>timerPending := False\<rparr>))) s)"
    by (rule sound_cleared_init) (rule cleared_consistent)
  with TimerFires assms(1) show ?thesis
    by simp
next
  case (AuthReply i r)
  with assms(1) show ?thesis by (simp add: sound_auth_reply)
next
  case (LinkReply i r)
  with assms(1) show ?thesis by (simp add: sound_link_reply)
next
  case (Resume i)
  with assms(1) show ?thesis by (simp add: sound_resume)
next
  case (DelayElapsed i)
  with assms(1) show ?thesis
    by (simp add: sound_enter_init split: option.splits pc.splits)
next
  case (IframeLoad i ld)
  show ?thesis
  proof (cases "position s i")
    case None
    with IframeLoad assms(1) show ?thesis by simp
  next
    case (Some p)
    show ?thesis
    proof (cases p)
      case (AwaitLoad src)
      let ?pm = "after_load (renderIframe_end cfg src ld (mgr s))"
      have g: "accessToken (snd ?pm) = accessToken (mgr s)"
        "embedUrl (snd ?pm) = embedUrl (mgr s)"
        "isInitialized (snd ?pm) = isInitialized (mgr s)"
        by (simp_all add: after_load_fields renderIframe_end_fields)
      have n: "needs (snd ?pm) (fst ?pm)"
        using after_load_fields(1) [of "renderIframe_end cfg src ld (mgr s)"]
        by (cases "fst ?pm") simp_all
      have "sound (advance i ?pm s)"
        using assms(1) same_session [OF g] n by (intro sound_advance) (simp_all add: sound_def)
      with IframeLoad Some AwaitLoad show ?thesis by simp
    qed (use IframeLoad Some assms(1) in simp_all)
  qed
qed

lemma sound_run:
  assumes "sound s" and "orderly cfg acts s"
  shows "sound (run cfg acts s)"
  using assms
proof (induction acts arbitrary: s)
  case Nil
  then show ?case by simp
next
  case (Cons a acts)
  from Cons.prems have "sound (step cfg a s)"
    by (intro sound_step) simp_all
  with Cons show ?case by simp
qed

lemma sound_boot: "sound (boot cfg)"
proof -
  have "sound \<lparr>mgr = fresh, tasks = []\<rparr>"
    by (simp add: sound_def consistent_def fresh_def)
  then have "sound (spawn ByConstructor (enter_init (mgr \<lparr>mgr = fresh, tasks = []\<rparr>)) \<lparr>mgr = fresh, tasks = []\<rparr>)"
    by (rule sound_enter_init)
  with \<open>sound \<lparr>mgr = fresh, tasks = []\<rparr>\<close> show ?thesis
    by (simp add: boot_def Let_def)
qed

text \<open>
  C3, amended. In every state reached by an orderly schedule, one in which \<open>refresh\<close>,
  \<open>destroy\<close> and the callback of the refresh timer run only while no link generation is
  pending, the URL is set only if the token is, and an initialized manager has both.
  Calls of \<open>init\<close> and \<open>render\<close>, replies, resumptions and delays interleave freely.
\<close>

theorem session_consistent_when_orderly:
  assumes "orderly cfg acts (boot cfg)"
  shows "(embedUrl (mgr (run cfg acts (boot cfg))) \<noteq> None \<longrightarrow>
            accessToken (mgr (run cfg acts (boot cfg))) \<noteq> None)
       \<and> (isInitialized (mgr (run cfg acts (boot cfg))) \<longrightarrow>
            accessToken (mgr (run cfg acts (boot cfg))) \<noteq> None
            \<and> embedUrl (mgr (run cfg acts (boot cfg))) \<noteq> None)"
proof -
  have "sound (run cfg acts (boot cfg))"
    using sound_boot assms by (rule sound_run)
  then show ?thesis
    by (simp add: sound_def consistent_def)
qed

theorem session_consistent_when_orderly_witness:
  "orderly node_config
     [CallInit, AuthReply 0 (token_reply None), Resume 0, LinkReply 0 url_reply, Resume 0,
      CallRefresh, AuthReply 1 (token_reply None), Resume 1, LinkReply 1 url_reply, Resume 1]
     (boot node_config)
   \<and> isInitialized (mgr (run node_config
     [CallInit, AuthReply 0 (token_reply None), Resume 0, LinkReply 0 url_reply, Resume 0,
      CallRefresh, AuthReply 1 (token_reply None), Resume 1, LinkReply 1 url_reply, Resume 1]
     (boot node_config)))
   \<and> accessToken (mgr (run node_config
     [CallInit, AuthReply 0 (token_reply None), Resume 0, LinkReply 0 url_reply, Resume 0,
      CallRefresh, AuthReply 1 (token_reply None), Resume 1, LinkReply 1 url_reply, Resume 1]
     (boot node_config))) \<noteq> None
   \<and> embedUrl (mgr (run node_config
     [CallInit, AuthReply 0 (token_reply None), Resume 0, LinkReply 0 url_reply, Resume 0,
      CallRefresh, AuthReply 1 (token_reply None), Resume 1, LinkReply 1 url_reply, Resume 1]
     (boot node_config))) \<noteq> None"
proof -
  have h: "orderly node_config
     [CallInit, AuthReply 0 (token_reply None), Resume 0, LinkReply 0 url_reply, Resume 0,
      CallRefresh, AuthReply 1 (token_reply None), Resume 1, LinkReply 1 url_reply, Resume 1]
     (boot node_config)"
    by (simp add: task_defs method_defs example_defs example_numbers quiet_def)
  have i: "isInitialized (mgr (run node_config
     [CallInit, AuthReply 0 (token_reply None), Resume 0, LinkReply 0 url_reply, Resume 0,
      CallRefresh, AuthReply 1 (token_reply None), Resume 1, LinkReply 1 url_reply, Resume 1]
     (boot node_config)))"
    by (simp add: task_defs method_defs example_defs example_numbers consistent_def getAccessToken_def)
  from session_consistent_when_orderly [OF h] h i show ?thesis
    by blast
qed

section \<open>\<open>render\<close> while \<open>init\<close> is in flight\<close>

text \<open>
  C10. While an \<open>init\<close> is in flight (loading, not yet initialized, no token and no URL
  yet), another call of \<open>init\<close> resolves at once with \<open>undefined\<close> and changes nothing; it
  does not wait for the one in flight. So \<open>render\<close>, which awaits \<open>init\<close> when the manager
  is not initialized, goes on to its \<open>switch\<close>: in \<open>api-only\<close> mode it resolves with an
  API descriptor whose token and URL are \<open>null\<close>, while the first \<open>init\<close> is still where
  it was.
\<close>

theorem render_does_not_wait_for_init:
  assumes "isLoading (mgr s)" and "\<not> isInitialized (mgr s)"
    and "accessToken (mgr s) = None" and "embedUrl (mgr s) = None"
  shows "init cfg b (mgr s) = (Resolved None, mgr s)
       \<and> step cfg CallInit s = s\<lparr>tasks := tasks s @ [(ByInit, Settled (Resolved None))]\<rparr>
       \<and> run cfg [CallRender (Some ApiOnly) c, Resume (length (tasks s))] s =
           \<lparr>mgr = triggerCallback cfg (OnLoad (ApiResult None None (cfg_environment cfg))) (mgr s),
            tasks = tasks s @
              [(ByRender (Some ApiOnly) c,
                Done (RenderDone (Resolved (ApiResult None None (cfg_environment cfg)))))]\<rparr>
       \<and> render cfg b (Some ApiOnly) c ld (mgr s) =
           (Resolved (ApiResult None None (cfg_environment cfg)),
            triggerCallback cfg (OnLoad (ApiResult None None (cfg_environment cfg))) (mgr s))"
proof -
  have i: "init cfg b (mgr s) = (Resolved None, mgr s)"
    using assms(1) by (subst init.simps) simp
  have e: "enter_init (mgr s) = (Settled (Resolved None), mgr s)"
    using assms(1) by (simp add: enter_init_def)
  have c1: "step cfg CallInit s = s\<lparr>tasks := tasks s @ [(ByInit, Settled (Resolved None))]\<rparr>"
    by (simp add: e spawn_def)
  have sw: "enter_switch cfg (Some ApiOnly) c (mgr s) =
      (Done (RenderDone (Resolved (ApiResult None None (cfg_environment cfg)))),
       triggerCallback cfg (OnLoad (ApiResult None None (cfg_environment cfg))) (mgr s))"
    using assms(3,4)
    by (simp add: enter_switch_def render_switch_def wrap_def returnApiData_def Let_def)
  have c2: "run cfg [CallRender (Some ApiOnly) c, Resume (length (tasks s))] s =
           \<lparr>mgr = triggerCallback cfg (OnLoad (ApiResult None None (cfg_environment cfg))) (mgr s),
            tasks = tasks s @
              [(ByRender (Some ApiOnly) c,
                Done (RenderDone (Resolved (ApiResult None None (cfg_environment cfg)))))]\<rparr>"
    using assms(2) by (simp add: e spawn_def advance_def sw)
  have c3: "render cfg b (Some ApiOnly) c ld (mgr s) =
           (Resolved (ApiResult None None (cfg_environment cfg)),
            triggerCallback cfg (OnLoad (ApiResult None None (cfg_environment cfg))) (mgr s))"
    using assms(2,3,4)
    by (simp add: render_def i dispatch_def render_switch_def wrap_def returnApiData_def Let_def)
  from i c1 c2 c3 show ?thesis by blast
qed

theorem render_does_not_wait_for_init_witness:
  "run node_config [CallInit, CallRender (Some ApiOnly) Element, Resume 1] (boot node_config) =
     \<lparr>mgr = \<lparr>accessToken = None, embedUrl = None, isInitialized = False, isLoading = True,
              retryCount = 0, refreshTimeout = None, timerPending = False,
              trace = [HttpAuth, OnLoad (ApiResult None None Node)], nAuth = 1, nLink = 0\<rparr>,
      tasks = [(ByInit, AwaitAuth),
               (ByRender (Some ApiOnly) Element,
                Done (RenderDone (Resolved (ApiResult None None Node))))]\<rparr>"
proof -
  let ?s = "run node_config [CallInit] (boot node_config)"
  have s: "?s = \<lparr>mgr = \<lparr>accessToken = None, embedUrl = None, isInitialized = False, isLoading = True,
              retryCount = 0, refreshTimeout = None, timerPending = False,
              trace = [HttpAuth], nAuth = 1, nLink = 0\<rparr>,
      tasks = [(ByInit, AwaitAuth)]\<rparr>"
    by code_simp
  have h: "isLoading (mgr ?s)" "\<not> isInitialized (mgr ?s)"
    "accessToken (mgr ?s) = None" "embedUrl (mgr ?s) = None"
    unfolding s by simp_all
  have len: "length (tasks ?s) = 1"
    unfolding s by simp
  have r: "run node_config [CallInit, CallRender (Some ApiOnly) Element, Resume 1] (boot node_config) =
      run node_config [CallRender (Some ApiOnly) Element, Resume (length (tasks ?s))] ?s"
    unfolding len by simp
  from render_does_not_wait_for_init [OF h, of node_config flaky Element Loaded]
  have "run node_config [CallRender (Some ApiOnly) Element, Resume (length (tasks ?s))] ?s =
      \<lparr>mgr = triggerCallback node_config (OnLoad (ApiResult None None (cfg_environment node_config))) (mgr ?s),
       tasks = tasks ?s @
         [(ByRender (Some ApiOnly) Element,
           Done (RenderDone (Resolved (ApiResult None None (cfg_environment node_config)))))]\<rparr>"
    by blast
  then show ?thesis
    unfolding r unfolding s
    by (simp add: node_config_def triggerCallback_def emit_def)
qed

section \<open>The two models agree\<close>

text \<open>
  Under its uninterrupted schedule, the task that calls \<open>init\<close> ends with the outcome and
  the manager that the run-to-completion \<open>init\<close> computes; likewise for \<open>refresh\<close>.
\<close>

lemma run_append: "run cfg (xs @ ys) s = run cfg ys (run cfg xs s)"
  by (induction xs arbitrary: s) simp_all

lemma advance_twice:
  "i < length (tasks s) \<Longrightarrow> advance i pm (advance i pm' s) = advance i pm s"
  by (simp add: advance_def)

lemma position_advance: "i < length (tasks s) \<Longrightarrow> position (advance i pm s) i = Some (fst pm)"
  by (simp add: position_def advance_def)

lemma task_advance:
  "i < length (tasks s) \<Longrightarrow> length (tasks (advance i pm s)) = length (tasks s)"
  "i < length (tasks s) \<Longrightarrow> fst (tasks (advance i pm s) ! i) = fst (tasks s ! i)"
  "i < length (tasks s) \<Longrightarrow> snd (tasks (advance i pm s) ! i) = fst pm"
  by (simp_all add: advance_def)

lemma attempt_simulated:
  assumes "i < length (tasks s)"
  shows "run cfg (attempt_schedule cfg b i m) (advance i (AwaitAuth, send_auth m) s) =
         advance i (attempt_end cfg b m) s"
proof -
  let ?s0 = "advance i (AwaitAuth, send_auth m) s"
  let ?r = "auth_reply b (nAuth m)"
  obtain x m1 where a: "authenticate cfg b m = (x, m1)"
    by (cases "authenticate cfg b m")
  then have ar: "auth_received cfg ?r (send_auth m) = (x, m1)"
    by (simp add: authenticate_def)
  have s1: "step cfg (AuthReply i ?r) ?s0 = advance i (after_auth (x, m1)) s"
    using assms by (simp add: position_advance mgr_advance ar advance_twice)
  show ?thesis
  proof (cases x)
    case (Some e)
    have tb: "try_block cfg b m = (Inl e, m1)"
      using a Some by (simp add: try_block_def)
    have "step cfg (Resume i) (advance i (Thrown e, m1) s) = advance i (attempt_end cfg b m) s"
      using assms
      by (simp add: task_advance mgr_advance advance_twice attempt_end_def tb split: prod.splits sum.splits)
    with s1 Some a show ?thesis
      by (simp add: attempt_schedule_def)
  next
    case None
    obtain y m2 where sl: "send_link m1 = (y, m2)"
      by (cases "send_link m1")
    show ?thesis
    proof (cases y)
      case (Some e)
      have tb: "try_block cfg b m = (Inl e, m2)"
        using a None sl Some by (simp add: try_block_def generateEmbedLink_def)
      have s2: "step cfg (Resume i) (advance i (AuthReturned, m1) s) = advance i (Thrown e, m2) s"
        using assms by (simp add: task_advance mgr_advance advance_twice sl Some)
      have s3: "step cfg (Resume i) (advance i (Thrown e, m2) s) = advance i (attempt_end cfg b m) s"
        using assms
        by (simp add: task_advance mgr_advance advance_twice attempt_end_def tb split: prod.splits sum.splits)
      from s1 s2 s3 None a sl Some show ?thesis
        by (simp add: attempt_schedule_def)
    next
      case NoneL: None
      let ?l = "link_reply b (nLink m1)"
      obtain z m3 where lr: "link_received ?l m2 = (z, m3)"
        by (cases "link_received ?l m2")
      have g: "generateEmbedLink b m1 = (z, m3)"
        using sl NoneL lr by (simp add: generateEmbedLink_def)
      have s2: "step cfg (Resume i) (advance i (AuthReturned, m1) s) = advance i (AwaitLink, m2) s"
        using assms by (simp add: task_advance mgr_advance advance_twice sl NoneL)
      have s3: "step cfg (LinkReply i ?l) (advance i (AwaitLink, m2) s) = advance i (after_link (z, m3)) s"
        using assms by (simp add: position_advance mgr_advance advance_twice lr)
      have s4: "step cfg (Resume i) (advance i (after_link (z, m3)) s) = advance i (attempt_end cfg b m) s"
      proof (cases z)
        case (Some e)
        have tb: "try_block cfg b m = (Inl e, m3)"
          using a None g Some by (simp add: try_block_def)
        show ?thesis
          using assms Some
          by (simp add: task_advance mgr_advance advance_twice attempt_end_def tb split: prod.splits sum.splits)
      next
        case NoneZ: None
        obtain r m4 where ok: "init_success cfg m3 = (r, m4)"
          by (cases "init_success cfg m3")
        have tb: "try_block cfg b m = (Inr r, m4)"
          using a None g NoneZ ok by (simp add: try_block_def)
        show ?thesis
          using assms NoneZ ok
          by (simp add: task_advance mgr_advance advance_twice attempt_end_def tb)
      qed
      from s1 s2 s3 s4 None a sl NoneL show ?thesis
        by (simp add: attempt_schedule_def)
    qed
  qed
qed

lemma init_simulated:
  assumes "i < length (tasks s)"
  shows "run cfg (init_schedule cfg b i m) (advance i (enter_init m) s) =
         advance i (Settled (fst (init cfg b m)), snd (init cfg b m)) s"
  using assms
proof (induction cfg b i m arbitrary: s rule: init_schedule.induct)
  case (1 cfg b i m)
  show ?case
  proof (cases "isLoading m \<or> (isInitialized m \<and> truthy (accessToken m))")
    case True
    then have "init_schedule cfg b i m = []" and "init cfg b m = (Resolved None, m)"
      and "enter_init m = (Settled (Resolved None), m)"
      by (subst init_schedule.simps init.simps, auto simp: enter_init_def)+
    then show ?thesis by simp
  next
    case False
    then have nl: "isLoading m = False"
      and ng: "(isInitialized m \<and> truthy (accessToken m)) = False"
      by simp_all
    let ?m0 = "m\<lparr>isLoading := True\<rparr>"
    have e: "enter_init m = (AwaitAuth, send_auth ?m0)"
      using False by (simp add: enter_init_def)
    obtain x m1 where tb: "try_block cfg b ?m0 = (x, m1)"
      by (cases "try_block cfg b ?m0")
    note att = attempt_simulated [OF "1.prems", of cfg b ?m0]
    show ?thesis
    proof (cases x)
      case (Inr r)
      have "init_schedule cfg b i m = attempt_schedule cfg b i ?m0"
        by (subst init_schedule.simps) (simp add: nl ng tb Inr)
      moreover have "init cfg b m = (Resolved (Some r), m1)"
        by (subst init.simps) (simp add: nl ng tb Inr)
      moreover have "attempt_end cfg b ?m0 = (Settled (Resolved (Some r)), m1)"
        by (simp add: attempt_end_def tb Inr)
      ultimately show ?thesis
        using att by (simp add: e)
    next
      case (Inl e1)
      obtain y m2 where ic: "init_catch cfg e1 m1 = (y, m2)"
        by (cases "init_catch cfg e1 m1")
      show ?thesis
      proof (cases y)
        case (Inr e')
        have "init_schedule cfg b i m = attempt_schedule cfg b i ?m0"
          by (subst init_schedule.simps) (simp add: nl ng tb Inl ic Inr)
        moreover have "init cfg b m = (Rejected e', m2)"
          by (subst init.simps) (simp add: nl ng tb Inl ic Inr)
        moreover have "attempt_end cfg b ?m0 = (Settled (Rejected e'), m2)"
          by (simp add: attempt_end_def tb Inl ic Inr)
        ultimately show ?thesis
          using att by (simp add: e)
      next
        case InlY: (Inl ms)
        let ?next = "delay cfg ms m2"
        have sch: "init_schedule cfg b i m =
            attempt_schedule cfg b i ?m0 @ DelayElapsed i # init_schedule cfg b i ?next"
          by (subst init_schedule.simps) (simp add: nl ng tb Inl ic InlY)
        have ini: "init cfg b m = init cfg b ?next"
          by (subst init.simps) (simp add: nl ng tb Inl ic InlY)
        have ae: "attempt_end cfg b ?m0 = (Sleeping ms, ?next)"
          by (simp add: attempt_end_def tb Inl ic InlY)
        let ?s1 = "advance i (Sleeping ms, ?next) s"
        have len: "i < length (tasks ?s1)"
          using "1.prems" by (simp add: task_advance)
        have wake: "step cfg (DelayElapsed i) ?s1 = advance i (enter_init ?next) s"
          using "1.prems" by (simp add: position_advance mgr_advance advance_twice)
        have ih: "run cfg (init_schedule cfg b i ?next) (advance i (enter_init ?next) s) =
            advance i (Settled (fst (init cfg b ?next)), snd (init cfg b ?next)) s"
          using nl ng by (intro "1.IH" [OF _ _ tb [symmetric] Inl ic [symmetric] InlY "1.prems"]) simp_all
        have "run cfg (init_schedule cfg b i m) (advance i (enter_init m) s) =
            run cfg (init_schedule cfg b i ?next)
              (step cfg (DelayElapsed i)
                (run cfg (attempt_schedule cfg b i ?m0) (advance i (AwaitAuth, send_auth ?m0) s)))"
          by (simp add: sch run_append e)
        also have "\<dots> = run cfg (init_schedule cfg b i ?next) (step cfg (DelayElapsed i) ?s1)"
          by (simp only: att ae)
        also have "\<dots> = run cfg (init_schedule cfg b i ?next) (advance i (enter_init ?next) s)"
          by (simp only: wake)
        also have "\<dots> = advance i (Settled (fst (init cfg b m)), snd (init cfg b m)) s"
          by (simp only: ih ini)
        finally show ?thesis .
      qed
    qed
  qed
qed


lemma advance_spawn:
  "advance (length (tasks s)) pm (spawn c pm' s) = spawn c pm s"
  by (simp add: advance_def spawn_def)

lemma spawn_simulated:
  "run cfg (init_schedule cfg b (length (tasks s)) m) (spawn c (enter_init m) s) =
     spawn c (Settled (fst (init cfg b m)), snd (init cfg b m)) s"
proof -
  let ?i = "length (tasks s)"
  let ?s1 = "spawn c (enter_init m) s"
  have len: "?i < length (tasks ?s1)"
    by (simp add: spawn_def)
  have "run cfg (init_schedule cfg b ?i m) (advance ?i (enter_init m) ?s1) =
      advance ?i (Settled (fst (init cfg b m)), snd (init cfg b m)) ?s1"
    using len by (rule init_simulated)
  then show ?thesis
    by (simp only: advance_spawn)
qed

lemma init_is_uninterrupted_task:
  "run cfg (CallInit # init_schedule cfg b (length (tasks s)) (mgr s) @ [Resume (length (tasks s))]) s =
     \<lparr>mgr = snd (init cfg b (mgr s)),
      tasks = tasks s @ [(ByInit, Done (InitDone (fst (init cfg b (mgr s)))))]\<rparr>"
proof -
  let ?i = "length (tasks s)"
  have "run cfg (CallInit # init_schedule cfg b ?i (mgr s) @ [Resume ?i]) s =
      step cfg (Resume ?i) (run cfg (init_schedule cfg b ?i (mgr s)) (spawn ByInit (enter_init (mgr s)) s))"
    by (simp add: run_append)
  also have "\<dots> = step cfg (Resume ?i)
      (spawn ByInit (Settled (fst (init cfg b (mgr s))), snd (init cfg b (mgr s))) s)"
    by (simp only: spawn_simulated)
  also have "\<dots> = \<lparr>mgr = snd (init cfg b (mgr s)),
      tasks = tasks s @ [(ByInit, Done (InitDone (fst (init cfg b (mgr s)))))]\<rparr>"
    by (simp add: spawn_def advance_def)
  finally show ?thesis .
qed

lemma refresh_is_uninterrupted_task:
  "run cfg (CallRefresh # init_schedule cfg b (length (tasks s)) (refresh_clear (mgr s))
        @ [Resume (length (tasks s))]) s =
     \<lparr>mgr = snd (refresh cfg b (mgr s)),
      tasks = tasks s @ [(ByRefresh, Done (InitDone (fst (refresh cfg b (mgr s)))))]\<rparr>"
proof -
  let ?i = "length (tasks s)"
  let ?m = "refresh_clear (mgr s)"
  have "run cfg (CallRefresh # init_schedule cfg b ?i ?m @ [Resume ?i]) s =
      step cfg (Resume ?i) (run cfg (init_schedule cfg b ?i ?m) (spawn ByRefresh (enter_init ?m) s))"
    by (simp add: run_append)
  also have "\<dots> = step cfg (Resume ?i)
      (spawn ByRefresh (Settled (fst (init cfg b ?m)), snd (init cfg b ?m)) s)"
    by (simp only: spawn_simulated)
  also have "\<dots> = \<lparr>mgr = snd (refresh cfg b (mgr s)),
      tasks = tasks s @ [(ByRefresh, Done (InitDone (fst (refresh cfg b (mgr s)))))]\<rparr>"
    by (simp add: spawn_def advance_def refresh_def)
  finally show ?thesis .
qed

section \<open>\<open>refresh\<close> among other tasks\<close>

text \<open>
  The token held changes only when a resumed \<open>_authenticate\<close> stores the token of its reply
  and when \<open>refresh\<close>, \<open>destroy\<close> or the timer callback clears it.
\<close>

lemma resume_token: "accessToken (snd (resume cfg c p m)) = accessToken m"
  by (cases p;
      auto simp: send_link_def emit_def init_success_def init_catch_def delay_def Let_def
        triggerCallback_fields handleError_fields continue_fields
        split: prod.splits option.splits sum.splits if_splits)

lemma step_token:
  "accessToken (mgr (step cfg a s)) \<in> {accessToken (mgr s), None} \<union> set (granted a)"
proof (cases a)
  case (AuthReply i r)
  then show ?thesis
    by (cases "auth_check r")
      (auto simp: mgr_advance auth_received_def scheduleTokenRefresh_fields)
next
  case (LinkReply i r)
  then show ?thesis
    by (cases "link_check r") (auto simp: mgr_advance link_received_def)
next
  case (Resume i)
  then show ?thesis
    by (simp add: mgr_advance resume_token)
next
  case (DelayElapsed i)
  then show ?thesis
    by (auto simp: mgr_advance enter_init_fields split: option.splits pc.splits)
next
  case (IframeLoad i ld)
  then show ?thesis
    by (auto simp: mgr_advance renderIframe_end_fields after_load_fields split: option.splits pc.splits)
qed (auto simp: mgr_spawn enter_init_fields enter_switch_fields refresh_clear_def destroy_fields)

lemma run_token:
  "accessToken (mgr (run cfg as s)) \<in> {accessToken (mgr s), None} \<union> set (concat (map granted as))"
proof (induction as arbitrary: s)
  case Nil
  show ?case by simp
next
  case (Cons a as)
  from Cons.IH [of "step cfg a s"] step_token [of cfg a s] show ?case
    by auto
qed

lemma refresh_call:
  "mgr (step cfg CallRefresh s) =
     snd (enter_init ((mgr s)\<lparr>isInitialized := False, accessToken := None, embedUrl := None,
                              retryCount := 0\<rparr>))"
  "accessToken (mgr (step cfg CallRefresh s)) = None"
  "embedUrl (mgr (step cfg CallRefresh s)) = None"
  "\<not> isInitialized (mgr (step cfg CallRefresh s))"
  "retryCount (mgr (step cfg CallRefresh s)) = 0"
  by (simp_all add: mgr_spawn enter_init_fields refresh_clear_def enter_init_def send_auth_def emit_def)

text \<open>
  C8, as the claim states it, fails. \<open>_authenticate\<close> sets the refresh timer, and for a
  hint of 30 seconds the delay is negative, so the timer is due while \<open>refresh\<close> awaits
  its link reply. Its callback calls \<open>refresh\<close>, which clears the token again and returns
  at once because the first \<open>refresh\<close> is loading. The first \<open>refresh\<close> then resolves with
  a result whose token is \<open>null\<close>, the manager is initialized, and \<open>getAccessToken\<close>
  returns \<open>null\<close>, not the token obtained.
\<close>

theorem refresh_resolves_without_token_counterexample:
  "run node_config
     [CallRefresh, AuthReply 0 (token_reply (Some 30)), Resume 0, TimerFires, Resume 1,
      LinkReply 0 url_reply, Resume 0, Resume 0] (boot node_config) =
   \<lparr>mgr = \<lparr>accessToken = None, embedUrl = Some ''U'', isInitialized = True, isLoading = False,
            retryCount = 0, refreshTimeout = Some (Finite (- 30000)), timerPending = False,
            trace = [HttpAuth, TimerSet (Finite (- 30000)), HttpLink (Some ''T''),
                     OnTokenExpired None, OnSuccess None (Some ''U'')],
            nAuth = 1, nLink = 1\<rparr>,
    tasks = [(ByRefresh, Done (InitDone (Resolved (Some
               \<lparr>r_accessToken = None, r_embedUrl = Some ''U'', r_environment = Node\<rparr>)))),
             (ByTimer, Done HandlerDone)]\<rparr>
   \<and> getAccessToken (mgr (run node_config
     [CallRefresh, AuthReply 0 (token_reply (Some 30)), Resume 0, TimerFires, Resume 1,
      LinkReply 0 url_reply, Resume 0, Resume 0] (boot node_config))) = Inr None"
  by (simp add: task_defs method_defs example_defs example_numbers getAccessToken_def)

text \<open>
  C8, amended. \<open>refresh\<close> clears \<open>isInitialized\<close>, the token, the URL and the retry counter
  and then runs \<open>init\<close>. Whatever runs after the call, in any order, the token held is
  \<open>null\<close> or the token of an authentication reply that came after the call. When the
  replies to this \<open>refresh\<close> come and it resumes with nothing else in between (no other
  call, and the timer does not fire), and it resolves with a result, then \<open>getAccessToken\<close>
  returns the token of the reply to the last authentication request, a request sent
  during this \<open>refresh\<close>, and the result carries the same token.
\<close>

theorem refresh_returns_new_token:
  "mgr (step cfg CallRefresh s) =
     snd (enter_init ((mgr s)\<lparr>isInitialized := False, accessToken := None, embedUrl := None,
                              retryCount := 0\<rparr>))
   \<and> accessToken (mgr (step cfg CallRefresh s)) = None
   \<and> embedUrl (mgr (step cfg CallRefresh s)) = None
   \<and> \<not> isInitialized (mgr (step cfg CallRefresh s))
   \<and> retryCount (mgr (step cfg CallRefresh s)) = 0
   \<and> accessToken (mgr (run cfg (CallRefresh # post) s)) \<in> insert None (set (concat (map granted post)))
   \<and> (refresh cfg b (mgr s) = (Resolved (Some r), m') \<longrightarrow>
        run cfg (CallRefresh # init_schedule cfg b (length (tasks s)) (refresh_clear (mgr s))
                 @ [Resume (length (tasks s))]) s =
          \<lparr>mgr = m', tasks = tasks s @ [(ByRefresh, Done (InitDone (Resolved (Some r))))]\<rparr>
        \<and> nAuth (mgr s) < nAuth m'
        \<and> (\<exists>expiresIn. auth_check (auth_reply b (nAuth m' - 1)) = Inr (accessToken m', expiresIn))
        \<and> getAccessToken m' = Inr (accessToken m')
        \<and> r_accessToken r = accessToken m')"
proof -
  have t: "accessToken (mgr (run cfg (CallRefresh # post) s)) \<in> insert None (set (concat (map granted post)))"
    using run_token [of cfg post "step cfg CallRefresh s"] refresh_call(2) [of cfg s]
    by auto
  have u: "run cfg (CallRefresh # init_schedule cfg b (length (tasks s)) (refresh_clear (mgr s))
                 @ [Resume (length (tasks s))]) s =
          \<lparr>mgr = m', tasks = tasks s @ [(ByRefresh, Done (InitDone (Resolved (Some r))))]\<rparr>
        \<and> nAuth (mgr s) < nAuth m'
        \<and> (\<exists>expiresIn. auth_check (auth_reply b (nAuth m' - 1)) = Inr (accessToken m', expiresIn))
        \<and> getAccessToken m' = Inr (accessToken m')
        \<and> r_accessToken r = accessToken m'"
    if h: "refresh cfg b (mgr s) = (Resolved (Some r), m')"
    using refresh_is_uninterrupted_task [of cfg b s] refresh_alone [OF h] h
    by simp
  from refresh_call [of cfg s] t u show ?thesis
    by blast
qed

theorem refresh_returns_new_token_witness:
  "run node_config
     [CallRefresh, AuthReply 0 (auth_reply rotating 1), Resume 0,
      LinkReply 0 (link_reply rotating 1), Resume 0, Resume 0] \<lparr>mgr = ready_T, tasks = []\<rparr> =
     \<lparr>mgr = ready_TT,
      tasks = [(ByRefresh, Done (InitDone (Resolved (Some
                 \<lparr>r_accessToken = Some ''TT'', r_embedUrl = Some ''U'', r_environment = Node\<rparr>))))]\<rparr>
   \<and> getAccessToken ready_T = Inr (Some ''T'')
   \<and> getAccessToken ready_TT = Inr (Some ''TT'')"
proof -
  let ?s = "\<lparr>mgr = ready_T, tasks = []\<rparr>"
  let ?r = "\<lparr>r_accessToken = Some ''TT'', r_embedUrl = Some ''U'', r_environment = Node\<rparr>"
  have a: "init node_config rotating (refresh_clear ready_T) =
      (Resolved (Some \<lparr>r_accessToken = Some ''TT'', r_embedUrl = Some ''U'',
                        r_environment = cfg_environment node_config\<rparr>),
       completed node_config (Some ''TT'') (Finite 1800) (Some ''U'') (refresh_clear ready_T))"
    by (rule init_success_step) (simp_all add: rotating_def example_defs ready_T_def refresh_clear_def)
  have b: "completed node_config (Some ''TT'') (Finite 1800) (Some ''U'') (refresh_clear ready_T) =
      ready_TT"
    by (simp add: refresh_clear_def completed_def method_defs example_defs
        example_numbers ready_T_def ready_TT_def)
  have e: "cfg_environment node_config = Node"
    by (simp add: node_config_def)
  have run: "refresh node_config rotating (mgr ?s) = (Resolved (Some ?r), ready_TT)"
    unfolding refresh_def by (simp only: system.simps a b e)
  have sch: "init_schedule node_config rotating 0 (refresh_clear ready_T) =
      [AuthReply 0 (auth_reply rotating 1), Resume 0, LinkReply 0 (link_reply rotating 1), Resume 0]"
    by (simp add: init_schedule.simps attempt_schedule_def refresh_clear_def method_defs
        example_defs example_numbers ready_T_def rotating_def)
  have sch': "init_schedule node_config rotating (length (tasks ?s)) (refresh_clear (mgr ?s)) =
      [AuthReply 0 (auth_reply rotating 1), Resume 0, LinkReply 0 (link_reply rotating 1), Resume 0]"
    using sch by (simp only: system.simps list.size)
  have g: "getAccessToken ready_T = Inr (Some ''T'')"
    by (simp add: ready_T_def getAccessToken_def)
  note t = refresh_returns_new_token [of node_config ?s _ rotating ?r ready_TT]
  from t run have "run node_config
      (CallRefresh # init_schedule node_config rotating (length (tasks ?s)) (refresh_clear (mgr ?s))
        @ [Resume (length (tasks ?s))]) ?s =
      \<lparr>mgr = ready_TT, tasks = tasks ?s @ [(ByRefresh, Done (InitDone (Resolved (Some ?r))))]\<rparr>
      \<and> getAccessToken ready_TT = Inr (accessToken ready_TT)"
    by blast
  then have "run node_config
      (CallRefresh # [AuthReply 0 (auth_reply rotating 1), Resume 0,
         LinkReply 0 (link_reply rotating 1), Resume 0] @ [Resume 0]) ?s =
      \<lparr>mgr = ready_TT, tasks = [] @ [(ByRefresh, Done (InitDone (Resolved (Some ?r))))]\<rparr>
      \<and> getAccessToken ready_TT = Inr (accessToken ready_TT)"
    unfolding sch' by (simp only: system.simps list.size)
  moreover have "accessToken ready_TT = Some ''TT''"
    by (simp add: ready_TT_def)
  ultimately show ?thesis
    using g by (simp only: append.simps)
qed

section \<open>The session invariant in a sequence of operations\<close>

text \<open>
  When every operation runs to completion before the next one starts, the invariant of the
  session holds after each of them.
\<close>

lemma try_block_consistent:
  assumes "consistent m"
  shows "consistent (snd (try_block cfg b m))"
  using assms
  by (auto simp: consistent_def try_block_def authenticate_def generateEmbedLink_def
      auth_received_def link_received_def send_auth_def send_link_def
      scheduleTokenRefresh_fields emit_def init_success_def triggerCallback_fields Let_def
      dest!: auth_check_truthy link_check_truthy truthy_Some
      split: prod.splits option.splits sum.splits if_splits)

lemma init_catch_fields:
  "accessToken (snd (init_catch cfg e m)) = accessToken m"
  "embedUrl (snd (init_catch cfg e m)) = embedUrl m"
  "isInitialized (snd (init_catch cfg e m)) = isInitialized m"
  by (simp_all add: init_catch_def Let_def handleError_fields)

lemma init_consistent:
  assumes "consistent m"
  shows "consistent (snd (init cfg b m))"
  using assms
proof (induction cfg b m rule: init.induct)
  case (1 cfg b m)
  show ?case
  proof (cases "isLoading m \<or> (isInitialized m \<and> truthy (accessToken m))")
    case True
    then have "init cfg b m = (Resolved None, m)"
      by (subst init.simps) auto
    with "1.prems" show ?thesis by simp
  next
    case False
    then have nl: "isLoading m = False"
      and ng: "(isInitialized m \<and> truthy (accessToken m)) = False"
      by simp_all
    let ?m0 = "m\<lparr>isLoading := True\<rparr>"
    obtain x m1 where tb: "try_block cfg b ?m0 = (x, m1)"
      by (cases "try_block cfg b ?m0")
    have c0: "consistent ?m0"
      using "1.prems" by (simp add: consistent_def)
    have c1: "consistent m1"
      using try_block_consistent [OF c0, of cfg b] tb by simp
    show ?thesis
    proof (cases x)
      case (Inr r)
      have "init cfg b m = (Resolved (Some r), m1)"
        by (subst init.simps) (simp add: nl ng tb Inr)
      with c1 show ?thesis by simp
    next
      case (Inl e)
      obtain y m2 where ic: "init_catch cfg e m1 = (y, m2)"
        by (cases "init_catch cfg e m1")
      have c2: "consistent m2"
        using c1 init_catch_fields [of cfg e m1] ic by (simp add: consistent_def)
      show ?thesis
      proof (cases y)
        case (Inr e')
        have "init cfg b m = (Rejected e', m2)"
          by (subst init.simps) (simp add: nl ng tb Inl ic Inr)
        with c2 show ?thesis by simp
      next
        case InlY: (Inl ms)
        have ini: "init cfg b m = init cfg b (delay cfg ms m2)"
          by (subst init.simps) (simp add: nl ng tb Inl ic InlY)
        have "consistent (delay cfg ms m2)"
          using c2 by (simp add: consistent_def delay_def emit_def)
        then have "consistent (snd (init cfg b (delay cfg ms m2)))"
          using nl ng by (intro "1.IH" [OF _ _ tb [symmetric] Inl ic [symmetric] InlY]) simp_all
        with ini show ?thesis by simp
      qed
    qed
  qed
qed

lemma dispatch_fields:
  "accessToken (snd (dispatch cfg mo c ld m)) = accessToken m"
  "embedUrl (snd (dispatch cfg mo c ld m)) = embedUrl m"
  "isInitialized (snd (dispatch cfg mo c ld m)) = isInitialized m"
  using render_switch_fields [of cfg mo c m]
  by (auto simp: dispatch_def renderIframe_end_fields split: prod.splits sum.splits)

lemma render_consistent:
  assumes "consistent m"
  shows "consistent (snd (render cfg b mo c ld m))"
proof -
  have d: "\<And>m'. consistent m' \<Longrightarrow> consistent (snd (dispatch cfg mo c ld m'))"
    using dispatch_fields by (simp add: consistent_def)
  show ?thesis
    using init_consistent [OF assms, of cfg b] d [OF assms] d [of "snd (init cfg b m)"]
    by (auto simp: render_def split: prod.splits outcome.splits)
qed

lemma timer_callback_consistent:
  assumes "consistent m"
  shows "consistent (timer_callback cfg b m)"
proof (cases "timerPending m")
  case False
  with assms show ?thesis by (simp add: timer_callback_def)
next
  case True
  have "consistent (refresh_clear (m\<lparr>timerPending := False\<rparr>))"
    by (rule cleared_consistent)
  then have "consistent (snd (refresh cfg b (m\<lparr>timerPending := False\<rparr>)))"
    unfolding refresh_def by (rule init_consistent)
  with True show ?thesis
    by (auto simp: timer_callback_def consistent_def triggerCallback_fields handleError_fields
        split: prod.splits outcome.splits)
qed

lemma perform_consistent:
  assumes "consistent m"
  shows "consistent (perform cfg b x m)"
proof (cases x)
  case Init
  with assms show ?thesis by (simp add: init_consistent)
next
  case Refresh
  have "consistent (snd (init cfg b (refresh_clear m)))"
    by (rule init_consistent) (rule cleared_consistent)
  with Refresh show ?thesis by (simp add: refresh_def)
next
  case Destroy
  then show ?thesis by (simp add: cleared_consistent)
next
  case (Render mo c ld)
  with assms show ?thesis by (simp add: render_consistent)
next
  case TimerDue
  with assms show ?thesis by (simp add: timer_callback_consistent)
qed

lemma session_consistent_in_sequence:
  "consistent (perform_all cfg b ops fresh)"
proof -
  have "\<And>m. consistent m \<Longrightarrow> consistent (perform_all cfg b ops m)"
  proof (induction ops)
    case Nil
    then show ?case by simp
  next
    case (Cons x xs)
    from Cons.prems have "consistent (perform cfg b x m)"
      by (rule perform_consistent)
    then show ?case
      using Cons.IH by simp
  qed
  moreover have "consistent fresh"
    by (simp add: consistent_def fresh_def)
  ultimately show ?thesis by blast
qed

section \<open>The session invariant in the first version\<close>

text \<open>
  In the first version too the invariant holds after every operation of a sequence in
  which each runs to completion.
\<close>

lemma legacy_check_truthy:
  "legacy_auth_check r = Inr tok \<Longrightarrow> tok \<noteq> None"
  "legacy_link_check l = Inr url \<Longrightarrow> url \<noteq> None"
  by (cases r; cases l; auto split: if_splits option.splits dest: truthy_Some)+

lemma legacy_init_consistent:
  assumes "legacy_consistent m"
  shows "legacy_consistent (snd (legacy_init b m))"
  using assms
  by (auto simp: legacy_consistent_def legacy_init_def Let_def
      dest: legacy_check_truthy split: sum.splits)

lemma legacy_perform_consistent:
  assumes "legacy_consistent m"
  shows "legacy_consistent (legacy_perform b x m)"
proof (cases x)
  case LInit
  with assms show ?thesis by (simp add: legacy_init_consistent)
next
  case LRefresh
  have "legacy_consistent (m\<lparr>l_isInitialized := False, l_accessToken := None, l_embedUrl := None\<rparr>)"
    by (simp add: legacy_consistent_def)
  then show ?thesis
    using LRefresh by (simp add: legacy_refresh_def legacy_init_consistent)
next
  case (LRender c)
  with assms legacy_init_consistent [OF assms, of b] show ?thesis
    by (auto simp: legacy_render_def Let_def split: prod.splits outcome.splits)
qed

lemma legacy_consistent_in_sequence:
  "legacy_consistent (legacy_perform_all b ops legacy_fresh)"
proof -
  have "\<And>m. legacy_consistent m \<Longrightarrow> legacy_consistent (legacy_perform_all b ops m)"
  proof (induction ops)
    case Nil
    then show ?case by simp
  next
    case (Cons x xs)
    from Cons.prems have "legacy_consistent (legacy_perform b x m)"
      by (rule legacy_perform_consistent)
    then show ?case
      using Cons.IH by simp
  qed
  moreover have "legacy_consistent legacy_fresh"
    by (simp add: legacy_consistent_def legacy_fresh_def)
  ultimately show ?thesis by blast
qed

end
